theory Spec2Isabelle
  imports Complex_Main "HOL-Library.AList" "HOL-Library.Log_Nat"
begin

section \<open>Conventions of the embedding\<close>

text \<open>
  The repository is a bundle of Streamlit pages. Each page is a script that is run from
  top to bottom on every interaction; its handlers sit under \<^verbatim>\<open>if st.button(...)\<close>.
  A handler is modelled as a function from the widget values and the state it reads to
  the state it leaves behind.

  \<^item> A Python exception is a value of \<open>py_error\<close>; a computation that may raise returns
    \<open>py_error + 'a\<close> with \<open>Inl\<close> for the exception.
  \<^item> A Python \<^verbatim>\<open>str\<close> is a \<open>string\<close>; one \<open>char\<close> stands for one code point below 256.
  \<^item> A Python \<^verbatim>\<open>float\<close> is a \<open>rat\<close>, the exact value of the double. Where the code
    computes with floats, every operation rounds its exact result to the nearest double
    (\<open>fl\<close> below); a float that is only compared is not rounded.
  \<^item> Library calls whose code is not part of the repository (\<^verbatim>\<open>json.load\<close>,
    \<^verbatim>\<open>json.dump\<close>, \<^verbatim>\<open>hashlib.sha1\<close>, \<^verbatim>\<open>requests.get\<close>, \<^verbatim>\<open>int\<close>, the TextBlob polarity)
    are parameters of the functions that call them.
  \<^item> A widget is given by the value submitted for it. A selection widget (\<^verbatim>\<open>st.radio\<close>)
    returns one of its options and nothing else.
\<close>

datatype py_error =
    FileNotFoundError
  | JSONDecodeError
  | KeyError string
  | ZeroDivisionError
  | ValueError
  | RequestException
  | StreamlitAPIException
  | OtherError

section \<open>Python numbers\<close>

text \<open>
  A number of the program is an \<^verbatim>\<open>int\<close> (unbounded) or a \<^verbatim>\<open>float\<close> (a double, given by
  its exact value).
\<close>

datatype py_num = PyInt int | PyFloat rat

fun num_value :: "py_num \<Rightarrow> rat" where
  "num_value (PyInt i) = of_int i"
| "num_value (PyFloat x) = x"

text \<open>
  Rounding to the nearest double. A double has 53 significant bits: for \<open>x \<noteq> 0\<close> the
  exponent \<open>e\<close> is the one with \<open>2 ^ 52 \<le> \<bar>x\<bar> / 2 ^ e < 2 ^ 53\<close>, and \<open>x\<close> is rounded
  to the nearest multiple of \<open>2 ^ e\<close>, a tie going to the even multiple. \<open>bitlen\<close> is the
  number of binary digits of a positive integer, so that the quotient of numerator and
  denominator lies within a factor 2 of \<open>2 ^ (e0 + 53)\<close>. The bounded exponent range of
  the doubles (overflow to infinity, subnormal numbers) is left out: every float of the
  assessment lies between \<open>2 ^ -6\<close> and \<open>2 ^ 7\<close>, or is 0.
\<close>

definition pow2 :: "int \<Rightarrow> rat" where
  "pow2 e = (if 0 \<le> e then 2 ^ nat e else 1 / 2 ^ nat (- e))"

definition round_half_even :: "rat \<Rightarrow> int" where
  "round_half_even x =
     (let f = \<lfloor>x\<rfloor>; d = x - of_int f in
      if d < 1 / 2 then f
      else if 1 / 2 < d then f + 1
      else if even f then f else f + 1)"

definition fl :: "rat \<Rightarrow> rat" where
  "fl x =
     (if x = 0 then 0
      else
        let a = \<bar>x\<bar>;
            e0 = bitlen (fst (quotient_of a)) - bitlen (snd (quotient_of a)) - 53;
            e = (if a / pow2 e0 < 2 ^ 53 then e0 else e0 + 1)
        in sgn x * of_int (round_half_even (a / pow2 e)) * pow2 e)"

text \<open>
  \<^verbatim>\<open>float(n)\<close>, and the arithmetic of \<^verbatim>\<open>+\<close>, \<^verbatim>\<open>*\<close> and \<^verbatim>\<open>/\<close>: two ints add and multiply
  exactly; otherwise an int operand is converted to a float first and the exact result
  of the operation on the two doubles is rounded. \<^verbatim>\<open>/\<close> on two ints gives the double
  nearest to the exact quotient.
\<close>

fun to_float :: "py_num \<Rightarrow> rat" where
  "to_float (PyInt i) = fl (of_int i)"
| "to_float (PyFloat x) = x"

fun py_add :: "py_num \<Rightarrow> py_num \<Rightarrow> py_num" where
  "py_add (PyInt i) (PyInt j) = PyInt (i + j)"
| "py_add a b = PyFloat (fl (to_float a + to_float b))"

fun py_mul :: "py_num \<Rightarrow> py_num \<Rightarrow> py_num" where
  "py_mul (PyInt i) (PyInt j) = PyInt (i * j)"
| "py_mul a b = PyFloat (fl (to_float a * to_float b))"

fun py_truediv :: "py_num \<Rightarrow> py_num \<Rightarrow> py_error + py_num" where
  "py_truediv (PyInt i) (PyInt j) =
     (if j = 0 then Inl ZeroDivisionError else Inr (PyFloat (fl (of_int i / of_int j))))"
| "py_truediv a b =
     (if to_float b = 0 then Inl ZeroDivisionError
      else Inr (PyFloat (fl (to_float a / to_float b))))"

section \<open>Security dashboard (app\_1d\_security\_dashboard.py)\<close>

subsection \<open>The persisted document\<close>

record category_score =
  cs_score :: py_num
  cs_max :: int

record assessment =
  date :: string
  total_score :: py_num
  responses :: "(string \<times> string) list"
  category_scores :: "(string \<times> category_score) list"

record goal =
  goal_id :: int
  title :: string
  description :: string
  category :: string
  deadline :: string
  priority :: string
  created_date :: string
  completed :: bool
  progress :: int

text \<open>The application never reads or writes an entry of \<open>habits\<close>; entries are kept opaque.\<close>

record security_data =
  assessments :: "assessment list"
  goals :: "goal list"
  habits :: "string list"
  last_assessment :: "assessment option"

text \<open>
  The file \<^verbatim>\<open>security_dashboard_data.json\<close>: \<open>None\<close> when it does not exist, otherwise
  its content.
\<close>

type_synonym data_file = "string option"

definition open_read :: "data_file \<Rightarrow> py_error + string" where
  "open_read f = (case f of None \<Rightarrow> Inl FileNotFoundError | Some content \<Rightarrow> Inr content)"

definition new_document :: security_data where
  "new_document = \<lparr>assessments = [], goals = [], habits = [], last_assessment = None\<rparr>"

text \<open>
  \<^verbatim>\<open>load_security_data\<close>: the body of the \<^verbatim>\<open>try\<close> opens the file and hands it to
  \<^verbatim>\<open>json.load\<close>; the bare \<^verbatim>\<open>except\<close> turns every exception of the body into the fresh
  document.
\<close>

definition load_security_data ::
  "(string \<Rightarrow> py_error + security_data) \<Rightarrow> data_file \<Rightarrow> py_error + security_data" where
  "load_security_data json_load f =
     (case (case open_read f of Inl e \<Rightarrow> Inl e | Inr content \<Rightarrow> json_load content) of
        Inl e \<Rightarrow> Inr new_document
      | Inr document \<Rightarrow> Inr document)"

text \<open>\<^verbatim>\<open>save_security_data\<close> overwrites the file with the serialised document.\<close>

definition save_security_data :: "(security_data \<Rightarrow> string) \<Rightarrow> security_data \<Rightarrow> data_file \<Rightarrow> data_file" where
  "save_security_data json_dump data f = Some (json_dump data)"

subsection \<open>Assessment engine\<close>

record question =
  q_id :: string
  q_text :: string
  weight :: int
  q_category :: string

definition questions :: "question list" where
  "questions =
    [\<lparr>q_id = ''unique_passwords'',
      q_text = ''Do you use unique passwords for each important account?'',
      weight = 20, q_category = ''Password Security''\<rparr>,
     \<lparr>q_id = ''password_manager'',
      q_text = ''Do you use a password manager?'',
      weight = 15, q_category = ''Password Security''\<rparr>,
     \<lparr>q_id = ''two_factor_auth'',
      q_text = ''Do you have 2FA enabled on important accounts (email, banking, social media)?'',
      weight = 20, q_category = ''Account Security''\<rparr>,
     \<lparr>q_id = ''software_updates'',
      q_text = ''Do you keep your software and operating system updated?'',
      weight = 15, q_category = ''System Security''\<rparr>,
     \<lparr>q_id = ''antivirus'',
      q_text = ''Do you have antivirus software installed and updated?'',
      weight = 10, q_category = ''System Security''\<rparr>,
     \<lparr>q_id = ''secure_browsing'',
      q_text = ''Do you avoid clicking suspicious links and downloading unknown files?'',
      weight = 10, q_category = ''Browsing Security''\<rparr>,
     \<lparr>q_id = ''wifi_security'',
      q_text = ''Do you avoid using public WiFi for sensitive activities?'',
      weight = 5, q_category = ''Network Security''\<rparr>,
     \<lparr>q_id = ''backup_strategy'',
      q_text = ''Do you have a regular backup strategy for important data?'',
      weight = 5, q_category = ''Data Protection''\<rparr>]"

text \<open>The options every \<^verbatim>\<open>st.radio\<close> of the assessment form offers.\<close>

definition answer_options :: "string list" where
  "answer_options = [''Yes'', ''Partially'', ''No'']"

text \<open>
  \<^verbatim>\<open>st.radio(label, options, key=...)\<close> returns one of its options. \<open>submitted\<close> is the
  value that arrives for the widget; a value that is not an option is refused, and the
  run of the page ends with an exception before anything is scored.
\<close>

definition st_radio :: "string list \<Rightarrow> string \<Rightarrow> py_error + string" where
  "st_radio options submitted =
     (if submitted \<in> set options then Inr submitted else Inl StreamlitAPIException)"

text \<open>
  The form loop: \<^verbatim>\<open>responses[q["id"]] = st.radio(...)\<close>, each widget under the key of
  its question. \<open>rs\<close> is the dictionary \<^verbatim>\<open>responses\<close> filled so far.
\<close>

fun collect_responses ::
  "question list \<Rightarrow> (string \<Rightarrow> string) \<Rightarrow> (string \<times> string) list
     \<Rightarrow> py_error + (string \<times> string) list" where
  "collect_responses [] submitted rs = Inr rs"
| "collect_responses (q # qs) submitted rs =
     (case st_radio answer_options (submitted (q_id q)) of
        Inl e \<Rightarrow> Inl e
      | Inr r \<Rightarrow> collect_responses qs submitted (AList.update (q_id q) r rs))"

text \<open>
  The \<^verbatim>\<open>if\<close>/\<^verbatim>\<open>elif\<close>/\<^verbatim>\<open>else\<close> that scores one question: the weight (an int),
  \<^verbatim>\<open>q["weight"] * 0.5\<close> (a float), or the int 0.
\<close>

definition question_score :: "question \<Rightarrow> string \<Rightarrow> py_num" where
  "question_score q response =
     (if response = ''Yes'' then PyInt (weight q)
      else if response = ''Partially'' then py_mul (PyInt (weight q)) (PyFloat (1 / 2))
      else PyInt 0)"

text \<open>
  The scoring loop over the questions; the accumulator is the pair of the running
  \<^verbatim>\<open>total_score\<close> and the dictionary \<^verbatim>\<open>category_scores\<close> (in insertion order).
\<close>

fun score_loop ::
  "(string \<times> string) list \<Rightarrow> question list \<Rightarrow> py_num \<times> (string \<times> category_score) list
     \<Rightarrow> py_error + (py_num \<times> (string \<times> category_score) list)" where
  "score_loop rs [] acc = Inr acc"
| "score_loop rs (q # qs) (tot, cats) =
     (case map_of rs (q_id q) of
        None \<Rightarrow> Inl (KeyError (q_id q))
      | Some response \<Rightarrow>
          let score = question_score q response;
              tot = py_add tot score;
              cats = (if map_of cats (q_category q) = None
                      then AList.update (q_category q) \<lparr>cs_score = PyInt 0, cs_max = 0\<rparr> cats
                      else cats);
              cats = AList.map_entry (q_category q)
                       (\<lambda>c. c\<lparr>cs_score := py_add (cs_score c) score\<rparr>) cats;
              cats = AList.map_entry (q_category q) (\<lambda>c. c\<lparr>cs_max := cs_max c + weight q\<rparr>) cats
          in score_loop rs qs (tot, cats))"

text \<open>
  The handler of the button "Calculate Security Score" up to
  \<^verbatim>\<open>percentage_score = (total_score / max_score) * 100\<close>: the result is the pair of
  \<^verbatim>\<open>percentage_score\<close> and \<^verbatim>\<open>category_scores\<close>.
\<close>

definition calculate_security_score ::
  "question list \<Rightarrow> (string \<times> string) list
     \<Rightarrow> py_error + (py_num \<times> (string \<times> category_score) list)" where
  "calculate_security_score qs rs =
     (let max_score = sum_list (map weight qs) in
      case score_loop rs qs (PyInt 0, []) of
        Inl e \<Rightarrow> Inl e
      | Inr (tot, cats) \<Rightarrow>
          (case py_truediv tot (PyInt max_score) of
             Inl e \<Rightarrow> Inl e
           | Inr ratio \<Rightarrow> Inr (py_mul ratio (PyInt 100), cats)))"


subsection \<open>Goal tracker\<close>

text \<open>The widgets of the form "Create New Goal"; the deadline is already in ISO format.\<close>

record goal_form =
  goal_title :: string
  goal_description :: string
  goal_category :: string
  goal_deadline :: string
  goal_priority :: string

text \<open>
  \<^verbatim>\<open>if st.button("Create Goal") and goal_title:\<close> An empty string is false in Python.
  \<open>now\<close> is \<^verbatim>\<open>datetime.now().isoformat()\<close>.
\<close>

definition create_goal ::
  "(security_data \<Rightarrow> string) \<Rightarrow> bool \<Rightarrow> goal_form \<Rightarrow> string \<Rightarrow> security_data \<times> data_file
     \<Rightarrow> security_data \<times> data_file" where
  "create_goal json_dump clicked form now st =
     (case st of (data, f) \<Rightarrow>
        if clicked \<and> goal_title form \<noteq> [] then
          let g = \<lparr>goal_id = int (length (goals data)),
                   title = goal_title form,
                   description = goal_description form,
                   category = goal_category form,
                   deadline = goal_deadline form,
                   priority = goal_priority form,
                   created_date = now,
                   completed = False,
                   progress = 0\<rparr>;
              data' = data\<lparr>goals := goals data @ [g]\<rparr>
          in (data', save_security_data json_dump data' f)
        else (data, f))"


text \<open>
  The loop over \<^verbatim>\<open>active_goals\<close>, the goals that are not completed. The goal dictionaries
  are shared with \<^verbatim>\<open>security_data["goals"]\<close>, so the loop walks the goal list itself:
  \<open>seen\<close> are the goals already passed (as the loop left them), the head of the third
  list is the current goal. \<open>slider\<close> gives the value the user set on the slider with key
  \<^verbatim>\<open>goal_progress_<id>\<close> (\<open>None\<close>: untouched, the widget returns its default, the
  goal's progress); \<open>pressed\<close> tells whether the button \<^verbatim>\<open>complete_goal_<id>\<close> was
  pressed. \<^verbatim>\<open>st.rerun()\<close> ends the run: the flag of the result.
\<close>

fun active_goals_loop ::
  "(security_data \<Rightarrow> string) \<Rightarrow> (int \<rightharpoonup> int) \<Rightarrow> (int \<Rightarrow> bool) \<Rightarrow> security_data
     \<Rightarrow> goal list \<Rightarrow> goal list \<Rightarrow> data_file \<Rightarrow> security_data \<times> data_file \<times> bool" where
  "active_goals_loop json_dump slider pressed data seen [] f =
     (data\<lparr>goals := seen\<rparr>, f, False)"
| "active_goals_loop json_dump slider pressed data seen (g # rest) f =
     (if completed g then active_goals_loop json_dump slider pressed data (seen @ [g]) rest f
      else
        let current_progress = (case slider (goal_id g) of None \<Rightarrow> progress g | Some v \<Rightarrow> v);
            changed = (current_progress \<noteq> progress g);
            g1 = (if changed
                  then g\<lparr>progress := current_progress,
                         completed := (if current_progress \<ge> 100 then True else completed g)\<rparr>
                  else g);
            f1 = (if changed
                  then save_security_data json_dump (data\<lparr>goals := seen @ g1 # rest\<rparr>) f
                  else f)
        in if pressed (goal_id g) then
             let g2 = g1\<lparr>completed := True, progress := 100\<rparr>;
                 data2 = data\<lparr>goals := seen @ g2 # rest\<rparr>
             in (data2, save_security_data json_dump data2 f1, True)
           else active_goals_loop json_dump slider pressed data (seen @ [g1]) rest f1)"

definition render_active_goals ::
  "(security_data \<Rightarrow> string) \<Rightarrow> (int \<rightharpoonup> int) \<Rightarrow> (int \<Rightarrow> bool) \<Rightarrow> security_data \<times> data_file
     \<Rightarrow> security_data \<times> data_file \<times> bool" where
  "render_active_goals json_dump slider pressed st =
     (case st of (data, f) \<Rightarrow> active_goals_loop json_dump slider pressed data [] (goals data) f)"

text \<open>
  The spec's \<^verbatim>\<open>update_progress(id, new_progress)\<close> is one run of the page in which the
  slider of goal \<open>gid\<close> is set to \<open>new_progress\<close>, no other slider is moved and no
  button is pressed.
\<close>

definition update_progress ::
  "(security_data \<Rightarrow> string) \<Rightarrow> int \<Rightarrow> int \<Rightarrow> security_data \<times> data_file \<Rightarrow> security_data \<times> data_file" where
  "update_progress json_dump gid new_progress st =
     (case render_active_goals json_dump [gid \<mapsto> new_progress] (\<lambda>_. False) st of
        (data, f, rerun) \<Rightarrow> (data, f))"

section \<open>Prime checker (app\_3a\_prime\_checker.py)\<close>

text \<open>The messages appended to \<^verbatim>\<open>steps\<close>, one constructor per f-string.\<close>

datatype step = CheckDivisible int int | IsDivisible int int | NoDivisors int

text \<open>
  \<^verbatim>\<open>int(math.sqrt(n))\<close> for \<open>n \<ge> 0\<close>: the largest \<open>k\<close> with \<open>k * k \<le> n\<close>, found by
  searching downwards from \<open>n\<close>.
\<close>

primrec isqrt_upto :: "nat \<Rightarrow> nat \<Rightarrow> nat" where
  "isqrt_upto n 0 = 0"
| "isqrt_upto n (Suc k) = (if Suc k * Suc k \<le> n then Suc k else isqrt_upto n k)"

definition int_sqrt :: "int \<Rightarrow> int" where
  "int_sqrt n = int (isqrt_upto (nat n) (nat n))"

text \<open>The \<^verbatim>\<open>for i in range(2, int(math.sqrt(n)) + 1)\<close> loop, over the list of its indices.\<close>

fun is_prime_loop :: "int \<Rightarrow> int list \<Rightarrow> step list \<Rightarrow> bool \<times> step list" where
  "is_prime_loop n [] steps = (True, steps @ [NoDivisors n])"
| "is_prime_loop n (i # rest) steps =
     (let steps = steps @ [CheckDivisible n i] in
      if n mod i = 0 then (False, steps @ [IsDivisible n i])
      else is_prime_loop n rest steps)"

definition is_prime :: "int \<Rightarrow> bool \<times> step list" where
  "is_prime n = (if n < 2 then (False, []) else is_prime_loop n [2..int_sqrt n] [])"

text \<open>What the claim calls prime: greater than 1, with no positive divisor but 1 and itself.\<close>

definition prime_number :: "int \<Rightarrow> bool" where
  "prime_number n \<longleftrightarrow> 1 < n \<and> (\<forall>d. 0 < d \<and> d dvd n \<longrightarrow> d = 1 \<or> d = n)"

section \<open>Breach checker (app\_1c\_breach\_checker.py)\<close>

text \<open>What the page reads of the object \<^verbatim>\<open>requests.get\<close> returns.\<close>

record response =
  status_code :: int
  response_text :: string

text \<open>
  \<^verbatim>\<open>str.splitlines()\<close>: a line ends at a line feed, a carriage return (with the line feed
  that follows it, if any), a vertical tab, a form feed, a file, group or record separator,
  or a next-line character; the line ends are dropped and no empty line is produced at the
  end of the text. \<open>cur\<close> holds the line read so far.
\<close>

definition linebreak :: "char \<Rightarrow> bool" where
  "linebreak c \<longleftrightarrow>
     c \<in> set [CHR 0x0A, CHR 0x0B, CHR 0x0C, CHR 0x0D, CHR 0x1C, CHR 0x1D, CHR 0x1E, CHR 0x85]"

fun splitlines_from :: "string \<Rightarrow> string \<Rightarrow> string list" where
  "splitlines_from cur [] = (if cur = [] then [] else [cur])"
| "splitlines_from cur [c] = (if linebreak c then [cur] else [cur @ [c]])"
| "splitlines_from cur (c # d # cs) =
     (if c = CHR 0x0D \<and> d = CHR 0x0A then cur # splitlines_from [] cs
      else if linebreak c then cur # splitlines_from [] (d # cs)
      else splitlines_from (cur @ [c]) (d # cs))"

definition splitlines :: "string \<Rightarrow> string list" where
  "splitlines s = splitlines_from [] s"

text \<open>\<^verbatim>\<open>str.split(sep)\<close> for a separator of one character.\<close>

fun split_on :: "char \<Rightarrow> string \<Rightarrow> string list" where
  "split_on sep [] = [[]]"
| "split_on sep (c # cs) =
     (if c = sep then [] # split_on sep cs
      else (case split_on sep cs of [] \<Rightarrow> [[c]] | p # ps \<Rightarrow> (c # p) # ps))"

text \<open>
  The loop over the lines of the response. Unpacking \<^verbatim>\<open>hash_line.split(':')\<close> into two
  names raises \<^verbatim>\<open>ValueError\<close> unless there are exactly two parts; \<open>py_int\<close> is Python's
  \<^verbatim>\<open>int\<close> on a string. The result is the pair of \<^verbatim>\<open>found\<close> and \<^verbatim>\<open>breach_count\<close>.
\<close>

fun scan_hashes ::
  "(string \<Rightarrow> py_error + int) \<Rightarrow> string \<Rightarrow> string list \<Rightarrow> py_error + (bool \<times> int)" where
  "scan_hashes py_int suffix [] = Inr (False, 0)"
| "scan_hashes py_int suffix (hash_line # rest) =
     (case split_on CHR '':'' hash_line of
        [hash_suffix, cnt] \<Rightarrow>
          if hash_suffix = suffix then
            (case py_int cnt of Inl e \<Rightarrow> Inl e | Inr breach_count \<Rightarrow> Inr (True, breach_count))
          else scan_hashes py_int suffix rest
      | _ \<Rightarrow> Inl ValueError)"

definition range_url :: "string \<Rightarrow> string" where
  "range_url prefix = ''https://api.pwnedpasswords.com/range/'' @ prefix"

text \<open>
  The lookup that both the single check and the batch check perform, from the hash to the
  end of the loop. \<open>sha1_upper\<close> is \<^verbatim>\<open>hashlib.sha1(password.encode()).hexdigest().upper()\<close>.
  The result is \<open>None\<close> when the status code is not 200.
\<close>

definition breach_lookup ::
  "(string \<Rightarrow> string) \<Rightarrow> (string \<Rightarrow> py_error + response) \<Rightarrow> (string \<Rightarrow> py_error + int) \<Rightarrow> string
     \<Rightarrow> py_error + (bool \<times> int) option" where
  "breach_lookup sha1_upper requests_get py_int password =
     (let sha1_hash = sha1_upper password;
          prefix = take 5 sha1_hash;
          suffix = drop 5 sha1_hash
      in case requests_get (range_url prefix) of
           Inl e \<Rightarrow> Inl e
         | Inr resp \<Rightarrow>
             if status_code resp = 200 then
               (case scan_hashes py_int suffix (splitlines (response_text resp)) of
                  Inl e \<Rightarrow> Inl e
                | Inr r \<Rightarrow> Inr (Some r))
             else Inr None)"

text \<open>
  What the single check shows, one constructor per branch of the page. The check runs
  when its button is pressed and the password is not empty; \<open>check_password\<close> is the body
  under that condition.
\<close>

datatype check_outcome =
    BreachDetected int
  | NoBreach
  | UnableToConnect
  | NetworkError
  | UnexpectedError py_error

definition check_password ::
  "(string \<Rightarrow> string) \<Rightarrow> (string \<Rightarrow> py_error + response) \<Rightarrow> (string \<Rightarrow> py_error + int) \<Rightarrow> string
     \<Rightarrow> check_outcome" where
  "check_password sha1_upper requests_get py_int password =
     (case breach_lookup sha1_upper requests_get py_int password of
        Inl e \<Rightarrow> (if e = RequestException then NetworkError else UnexpectedError e)
      | Inr None \<Rightarrow> UnableToConnect
      | Inr (Some (found, breach_count)) \<Rightarrow>
          (if found then BreachDetected breach_count else NoBreach))"

text \<open>
  An entry of the batch \<^verbatim>\<open>results\<close>. The value under \<^verbatim>\<open>'breached'\<close> is a Python
  \<^verbatim>\<open>bool\<close> or the string \<^verbatim>\<open>'Error'\<close>.
\<close>

datatype py_flag = PyBool bool | PyStr string

fun truthy :: "py_flag \<Rightarrow> bool" where
  "truthy (PyBool b) = b"
| "truthy (PyStr s) = (s \<noteq> [])"

record batch_result =
  res_password :: string
  res_breached :: py_flag
  res_count :: int

definition mask_password :: "string \<Rightarrow> string" where
  "mask_password password = take 3 password @ replicate (length password - 3) CHR ''*''"

text \<open>
  The batch loop. The bare \<^verbatim>\<open>except\<close> appends the entry with \<^verbatim>\<open>'Error'\<close>; a response
  whose status code is not 200 appends nothing, the \<^verbatim>\<open>if\<close> has no \<^verbatim>\<open>else\<close>. The pause
  between requests and the progress bar do not touch \<^verbatim>\<open>results\<close>.
\<close>

fun batch_loop ::
  "(string \<Rightarrow> string) \<Rightarrow> (string \<Rightarrow> py_error + response) \<Rightarrow> (string \<Rightarrow> py_error + int)
     \<Rightarrow> string list \<Rightarrow> batch_result list \<Rightarrow> batch_result list" where
  "batch_loop sha1_upper requests_get py_int [] results = results"
| "batch_loop sha1_upper requests_get py_int (password # rest) results =
     (let results =
        (case breach_lookup sha1_upper requests_get py_int password of
           Inl e \<Rightarrow>
             results @ [\<lparr>res_password = mask_password password,
                          res_breached = PyStr ''Error'', res_count = 0\<rparr>]
         | Inr None \<Rightarrow> results
         | Inr (Some (found, breach_count)) \<Rightarrow>
             results @ [\<lparr>res_password = mask_password password,
                          res_breached = PyBool found, res_count = breach_count\<rparr>])
      in batch_loop sha1_upper requests_get py_int rest results)"

definition batch_check ::
  "(string \<Rightarrow> string) \<Rightarrow> (string \<Rightarrow> py_error + response) \<Rightarrow> (string \<Rightarrow> py_error + int)
     \<Rightarrow> string list \<Rightarrow> batch_result list" where
  "batch_check sha1_upper requests_get py_int passwords =
     batch_loop sha1_upper requests_get py_int passwords []"

definition safe_count :: "batch_result list \<Rightarrow> nat" where
  "safe_count results = length (filter (\<lambda>r. \<not> truthy (res_breached r)) results)"

definition breached_count :: "batch_result list \<Rightarrow> nat" where
  "breached_count results =
     length (filter (\<lambda>r. truthy (res_breached r) \<and> res_breached r \<noteq> PyStr ''Error'') results)"

definition error_count :: "batch_result list \<Rightarrow> nat" where
  "error_count results = length (filter (\<lambda>r. res_breached r = PyStr ''Error'') results)"

section \<open>Email analysis (workshop\_app.py)\<close>

text \<open>
  The two labels \<^verbatim>\<open>ai_check\<close> returns; in the source each is a string that starts with
  an emoji.
\<close>

datatype sentiment = Positive | Negative | Neutral

datatype security = PossiblePhishing | BeCareful | LooksSafe

definition phishing_words :: "string list" where
  "phishing_words =
     [''urgent'', ''click now'', ''verify account'', ''suspended'',
      ''limited time'', ''act now'', ''money'', ''free'']"

text \<open>
  \<^verbatim>\<open>str.lower()\<close> on code points below 256: the letters A to Z and the capital letters of
  Latin-1 (192 to 222 except the multiplication sign 215) move up by 32.
\<close>

definition lower_char :: "char \<Rightarrow> char" where
  "lower_char c =
     (let n = (of_char c :: nat) in
      if (65 \<le> n \<and> n \<le> 90) \<or> (192 \<le> n \<and> n \<le> 222 \<and> n \<noteq> 215) then char_of (n + 32) else c)"

definition lower :: "string \<Rightarrow> string" where
  "lower s = map lower_char s"

text \<open>\<^verbatim>\<open>w in s\<close> on strings: \<open>w\<close> starts at some position of \<open>s\<close>.\<close>

fun starts_with :: "string \<Rightarrow> string \<Rightarrow> bool" where
  "starts_with s [] = True"
| "starts_with [] (x # w) = False"
| "starts_with (c # s) (x # w) = (c = x \<and> starts_with s w)"

fun py_in :: "string \<Rightarrow> string \<Rightarrow> bool" where
  "py_in w [] = (w = [])"
| "py_in w (c # s) = (starts_with (c # s) w \<or> py_in w s)"

text \<open>\<open>polarity\<close> is \<^verbatim>\<open>TextBlob(text).sentiment.polarity\<close>.\<close>

definition ai_check :: "(string \<Rightarrow> rat) \<Rightarrow> string \<Rightarrow> sentiment \<times> security \<times> rat" where
  "ai_check polarity text =
     (let scores = polarity text;
          sentiment = (if scores \<ge> 5 / 100 then Positive
                       else if scores \<le> - (5 / 100) then Negative
                       else Neutral);
          phishing_count = length (filter (\<lambda>word. py_in (lower word) (lower text)) phishing_words);
          security = (if phishing_count \<ge> 2 then PossiblePhishing
                      else if phishing_count = 1 then BeCareful
                      else LooksSafe)
      in (sentiment, security, scores))"

text \<open>
  What the claim calls a case-insensitive substring: some stretch of the text equals the
  keyword once both are put in lower case.
\<close>

definition occurs_ignoring_case :: "string \<Rightarrow> string \<Rightarrow> bool" where
  "occurs_ignoring_case w text \<longleftrightarrow> (\<exists>ps s ss. text = ps @ s @ ss \<and> lower s = lower w)"

section \<open>Notions of the specification\<close>

text \<open>
  The three answers of the questionnaire and the score the specification gives each:
  the weight for Yes, half the weight for Partially, nothing for No.
\<close>

datatype answer = Yes | Partially | No

fun answer_text :: "answer \<Rightarrow> string" where
  "answer_text Yes = ''Yes''"
| "answer_text Partially = ''Partially''"
| "answer_text No = ''No''"

fun spec_score :: "int \<Rightarrow> answer \<Rightarrow> rat" where
  "spec_score w Yes = of_int w"
| "spec_score w Partially = of_int w / 2"
| "spec_score w No = 0"

text \<open>
  For an assignment \<open>a\<close> of answers to question ids: the sum of the question scores, the
  sum of all weights, the total score \<^verbatim>\<open>100 * sum of scores / sum of weights\<close>, and the
  score and the maximum of a category.
\<close>

definition spec_total :: "(string \<Rightarrow> answer) \<Rightarrow> rat" where
  "spec_total a = (\<Sum>q\<leftarrow>questions. spec_score (weight q) (a (q_id q)))"

definition spec_max :: int where
  "spec_max = (\<Sum>q\<leftarrow>questions. weight q)"

definition spec_percentage :: "(string \<Rightarrow> answer) \<Rightarrow> rat" where
  "spec_percentage a = 100 * spec_total a / of_int spec_max"

definition spec_category_score :: "(string \<Rightarrow> answer) \<Rightarrow> string \<Rightarrow> rat" where
  "spec_category_score a c =
     (\<Sum>q\<leftarrow>filter (\<lambda>q. q_category q = c) questions. spec_score (weight q) (a (q_id q)))"

definition spec_category_max :: "string \<Rightarrow> int" where
  "spec_category_max c = (\<Sum>q\<leftarrow>filter (\<lambda>q. q_category q = c) questions. weight q)"

text \<open>
  The values the sums of the assessment take: the multiples of 2.5 from 0 to 100.
\<close>

definition grid_point :: "int \<Rightarrow> rat" where
  "grid_point k = of_int k * (5 / 2)"

definition on_grid :: "py_num \<Rightarrow> bool" where
  "on_grid v \<longleftrightarrow> (\<exists>k. 0 \<le> k \<and> k \<le> 40 \<and> num_value v = grid_point k)"



text \<open>
  A response of the hash-range service: one line \<^verbatim>\<open>suffix:count\<close> for each entry,
  the lines joined by a separator (\<^verbatim>\<open>sep.join(lines)\<close>): a line feed, or a carriage
  return and a line feed as the service sends them.
\<close>

definition hash_line :: "string \<times> string \<Rightarrow> string" where
  "hash_line e = fst e @ CHR '':'' # snd e"

fun join_with :: "string \<Rightarrow> string list \<Rightarrow> string" where
  "join_with sep [] = []"
| "join_with sep [l] = l"
| "join_with sep (l # m # ls) = l @ sep @ join_with sep (m # ls)"

text \<open>A character that may occur in a suffix or a count: no line end and no colon.\<close>

definition field_char :: "char \<Rightarrow> bool" where
  "field_char c \<longleftrightarrow> \<not> linebreak c \<and> c \<noteq> CHR '':''"

text \<open>
  What one pass of the loop over the active goals does to a single goal when no button is
  pressed: a completed goal is not shown, an untouched slider changes nothing, a moved
  slider sets the progress and, from 100 on, the completed flag.
\<close>

definition slide :: "(int \<rightharpoonup> int) \<Rightarrow> goal \<Rightarrow> goal" where
  "slide slider g =
     (if completed g then g
      else case slider (goal_id g) of
             None \<Rightarrow> g
           | Some v \<Rightarrow> if v \<noteq> progress g
                       then g\<lparr>progress := v, completed := (if v \<ge> 100 then True else completed g)\<rparr>
                       else g)"

text \<open>
  The state of the goals the page itself produces: a goal that is not completed has a
  progress below 100.
\<close>

definition active_below_100 :: "goal list \<Rightarrow> bool" where
  "active_below_100 gs \<longleftrightarrow> list_all (\<lambda>g. completed g \<or> progress g < 100) gs"

text \<open>Two goals for the examples: one in progress, one completed.\<close>

definition example_active_goal :: goal where
  "example_active_goal =
     \<lparr>goal_id = 0, title = ''Enable 2FA'', description = ''email'', category = ''Account Security'',
      deadline = ''2026-01-31'', priority = ''High'', created_date = ''2026-01-01T10:00:00'',
      completed = False, progress = 20\<rparr>"

definition example_completed_goal :: goal where
  "example_completed_goal =
     \<lparr>goal_id = 1, title = ''Backups'', description = ''weekly'', category = ''Data Protection'',
      deadline = ''2026-02-28'', priority = ''Low'', created_date = ''2026-01-02T09:30:00'',
      completed = True, progress = 100\<rparr>"

text \<open>
  Assignments of answers for the examples, given by the questions answered other than No,
  the response mapping of an assignment, and what arrives at the radio widgets: the
  answers of an assignment, or a value that is no option for one of the questions.
\<close>

definition answers_of :: "(string \<times> answer) list \<Rightarrow> string \<Rightarrow> answer" where
  "answers_of l k = (case map_of l k of None \<Rightarrow> No | Some x \<Rightarrow> x)"

definition responses_of :: "(string \<Rightarrow> answer) \<Rightarrow> (string \<times> string) list" where
  "responses_of a = map (\<lambda>q. (q_id q, answer_text (a (q_id q)))) questions"


definition example_answers :: "string \<Rightarrow> answer" where
  "example_answers =
     answers_of [(''unique_passwords'', Yes), (''password_manager'', Partially),
       (''two_factor_auth'', Yes), (''software_updates'', Yes), (''secure_browsing'', Yes),
       (''wifi_security'', Yes), (''backup_strategy'', Yes)]"

definition example_answers_55 :: "string \<Rightarrow> answer" where
  "example_answers_55 =
     answers_of [(''unique_passwords'', Yes), (''password_manager'', Yes), (''two_factor_auth'', Yes)]"


definition example_answers_27 :: "string \<Rightarrow> answer" where
  "example_answers_27 = answers_of [(''unique_passwords'', Yes), (''password_manager'', Partially)]"

definition example_answers_57 :: "string \<Rightarrow> answer" where
  "example_answers_57 =
     answers_of [(''unique_passwords'', Yes), (''password_manager'', Yes), (''two_factor_auth'', Yes),
       (''wifi_security'', Partially)]"

definition submitted_of :: "(string \<Rightarrow> answer) \<Rightarrow> string \<Rightarrow> string" where
  "submitted_of a k = answer_text (a k)"


text \<open>
  Stand-ins for the library calls in the examples: \<^verbatim>\<open>int\<close> on a string of decimal
  digits, a digest, and a service that answers one range with three entries.
\<close>

definition digits_int :: "string \<Rightarrow> py_error + int" where
  "digits_int s =
     (if s \<noteq> [] \<and> list_all (\<lambda>c. 48 \<le> (of_char c :: int) \<and> (of_char c :: int) \<le> 57) s
      then Inr (foldl (\<lambda>a c. 10 * a + (of_char c - 48)) 0 s)
      else Inl ValueError)"

definition example_entries :: "(string \<times> string) list" where
  "example_entries =
     [(''1D72CD07550416C216D8AD296BF5C0AE8E0'', ''10''),
      (''1E4C9B93F3F0682250B6CF8331B7EE68FD8'', ''3861493''),
      (''1F2B668E8AABEF1C59E9EC6F82E3F3CD786'', ''2'')]"

definition example_sha1 :: "string \<Rightarrow> string" where
  "example_sha1 password =
     (if password = ''password'' then ''5BAA61E4C9B93F3F0682250B6CF8331B7EE68FD8''
      else ''5BAA6FFFFFFFFFFFFFFFFFFFFFFFFFFFFFFFFFFF'')"

definition example_get :: "string \<Rightarrow> py_error + response" where
  "example_get url =
     (if url = ''https://api.pwnedpasswords.com/range/5BAA6''
      then Inr \<lparr>status_code = 200,
                response_text = join_with [CHR 0x0D, CHR 0x0A] (map hash_line example_entries)\<rparr>
      else Inl RequestException)"

text \<open>A service that answers every request with status 503.\<close>

definition example_unavailable :: "string \<Rightarrow> py_error + response" where
  "example_unavailable url = Inr \<lparr>status_code = 503, response_text = []\<rparr>"

text \<open>A stand-in for the polarity of a text in the examples.\<close>

definition example_polarity :: "string \<Rightarrow> rat" where
  "example_polarity text =
     (if py_in ''thank'' (lower text) then 1 / 2
      else if py_in ''bad'' (lower text) then - (3 / 5)
      else 0)"

section \<open>Verification of the prime checker\<close>

lemma isqrt_upto_sq: "isqrt_upto n k * isqrt_upto n k \<le> n"
  by (induction k) auto

lemma isqrt_upto_max: "j \<le> k \<Longrightarrow> j * j \<le> n \<Longrightarrow> j \<le> isqrt_upto n k"
proof (induction k)
  case 0 then show ?case by simp
next
  case (Suc k)
  show ?case
  proof (cases "Suc k * Suc k \<le> n")
    case True then show ?thesis using Suc.prems by simp
  next
    case False
    then have "j \<noteq> Suc k" using Suc.prems by auto
    then have "j \<le> k" using Suc.prems by simp
    then show ?thesis using Suc False by simp
  qed
qed

lemma int_sqrt_bounds:
  assumes "0 \<le> n"
  shows "0 \<le> int_sqrt n" and "int_sqrt n * int_sqrt n \<le> n" and "n < (int_sqrt n + 1) * (int_sqrt n + 1)"
proof -
  let ?m = "nat n" and ?r = "isqrt_upto (nat n) (nat n)"
  show "0 \<le> int_sqrt n" by (simp add: int_sqrt_def)
  have "int (?r * ?r) \<le> int ?m" using isqrt_upto_sq[of ?m ?m] by (simp only: of_nat_le_iff)
  then show "int_sqrt n * int_sqrt n \<le> n" using assms by (simp add: int_sqrt_def)
  have "\<not> Suc ?r * Suc ?r \<le> ?m"
  proof
    assume h: "Suc ?r * Suc ?r \<le> ?m"
    have "Suc ?r \<le> Suc ?r * Suc ?r" by simp
    then have "Suc ?r \<le> ?m" using h by linarith
    then have "Suc ?r \<le> ?r" using h isqrt_upto_max by blast
    then show False by simp
  qed
  then have "?m < Suc ?r * Suc ?r" by simp
  then have "int ?m < int (Suc ?r * Suc ?r)" by (simp only: of_nat_less_iff)
  then show "n < (int_sqrt n + 1) * (int_sqrt n + 1)" using assms
    by (simp add: int_sqrt_def algebra_simps)
qed

lemma int_sqrt_floor:
  assumes "0 \<le> n" shows "int_sqrt n = \<lfloor>sqrt (real_of_int n)\<rfloor>"
proof -
  let ?r = "int_sqrt n"
  have r: "0 \<le> ?r" "?r * ?r \<le> n" "n < (?r + 1) * (?r + 1)"
    using int_sqrt_bounds[OF assms] by auto
  have "(real_of_int ?r)\<^sup>2 \<le> real_of_int n"
    using r(2) by (metis of_int_le_iff of_int_mult power2_eq_square)
  then have lo: "real_of_int ?r \<le> sqrt (real_of_int n)"
    by (rule real_le_rsqrt)
  have "real_of_int n < (real_of_int (?r + 1))\<^sup>2"
    using r(3) by (metis of_int_less_iff of_int_mult power2_eq_square)
  moreover have "0 \<le> real_of_int (?r + 1)" using r(1) by simp
  ultimately have "sqrt (real_of_int n) < real_of_int (?r + 1)"
    by (simp add: real_less_lsqrt)
  then have hi: "sqrt (real_of_int n) < real_of_int ?r + 1" by simp
  show ?thesis using lo hi by (simp add: floor_unique)
qed

lemma is_prime_loop_fst: "fst (is_prime_loop n ds steps) \<longleftrightarrow> (\<forall>i\<in>set ds. n mod i \<noteq> 0)"
  by (induction ds arbitrary: steps) (auto simp: Let_def)

lemma no_small_divisor_iff:
  assumes "2 \<le> n" "0 \<le> r" "r * r \<le> n" "n < (r + 1) * (r + 1)"
  shows "prime_number n \<longleftrightarrow> (\<forall>i\<in>{2..r}. \<not> i dvd (n::int))"
proof
  assume p: "prime_number n"
  show "\<forall>i\<in>{2..r}. \<not> i dvd n"
  proof (intro ballI notI)
    fix i assume i: "i \<in> {2..r}" and d: "i dvd n"
    from p have "0 < i \<and> i dvd n \<longrightarrow> i = 1 \<or> i = n"
      unfolding prime_number_def by blast
    then have "i = n" using i d by simp
    then have "n \<le> r" using i by simp
    then have "n * n \<le> r * r" using assms by (simp add: mult_mono)
    then have "n * n \<le> n" using assms by linarith
    moreover have "2 * n \<le> n * n" using assms by (simp add: mult_right_mono)
    ultimately show False using assms by linarith
  qed
next
  assume a: "\<forall>i\<in>{2..r}. \<not> i dvd n"
  show "prime_number n" unfolding prime_number_def
  proof (intro conjI allI impI)
    show "1 < n" using assms by simp
  next
    fix d assume d: "0 < d \<and> d dvd n"
    show "d = 1 \<or> d = n"
    proof (rule ccontr)
      assume c: "\<not> (d = 1 \<or> d = n)"
      obtain e where e: "n = d * e" using d by (auto simp: dvd_def)
      have dn: "d \<le> n" using d assms by (simp add: zdvd_imp_le)
      have d2: "2 \<le> d" "d < n" using d c dn by auto
      have "0 < d * e" using e assms by simp
      then have e0: "0 < e" using d by (simp add: zero_less_mult_iff)
      have "e \<noteq> 1" using e c by auto
      then have e2: "2 \<le> e" using e0 by simp
      have "d \<le> r \<or> e \<le> r"
      proof (rule ccontr)
        assume "\<not> (d \<le> r \<or> e \<le> r)"
        then have "r + 1 \<le> d" "r + 1 \<le> e" by auto
        then have "(r + 1) * (r + 1) \<le> d * e" using assms by (simp add: mult_mono)
        then show False using e assms by simp
      qed
      moreover have "d dvd n" "e dvd n" using e by auto
      ultimately show False using a d2 e2 by auto
    qed
  qed
qed

text \<open>
  Claim C10. For every integer \<open>n\<close> with \<open>2 \<le> n \<le> 100000\<close>, \<open>is_prime n\<close> returns
  \<open>True\<close> exactly when \<open>n\<close> is prime, that is exactly when no integer in
  \<open>[2, floor (sqrt n)]\<close> divides \<open>n\<close>; for every \<open>n < 2\<close> it returns \<open>False\<close>.
\<close>

theorem is_prime_correct:
  "(n < 2 \<longrightarrow> fst (is_prime n) = False) \<and>
   (2 \<le> n \<and> n \<le> 100000 \<longrightarrow>
      (fst (is_prime n) \<longleftrightarrow> prime_number n) \<and>
      (prime_number n \<longleftrightarrow> (\<forall>i\<in>{2..\<lfloor>sqrt (real_of_int n)\<rfloor>}. \<not> i dvd n)))"
proof (intro conjI impI)
  assume "n < 2" then show "fst (is_prime n) = False" by (simp add: is_prime_def)
next
  assume n: "2 \<le> n \<and> n \<le> 100000"
  then have n0: "0 \<le> n" by simp
  have fl: "\<lfloor>sqrt (real_of_int n)\<rfloor> = int_sqrt n" using int_sqrt_floor[OF n0] by simp
  have pr: "prime_number n \<longleftrightarrow> (\<forall>i\<in>{2..int_sqrt n}. \<not> i dvd n)"
    using no_small_divisor_iff[of n "int_sqrt n"] int_sqrt_bounds[OF n0] n by blast
  show "prime_number n \<longleftrightarrow> (\<forall>i\<in>{2..\<lfloor>sqrt (real_of_int n)\<rfloor>}. \<not> i dvd n)"
    using pr fl by simp
  have "fst (is_prime n) \<longleftrightarrow> (\<forall>i\<in>{2..int_sqrt n}. n mod i \<noteq> 0)"
    using n by (simp add: is_prime_def is_prime_loop_fst)
  also have "\<dots> \<longleftrightarrow> (\<forall>i\<in>{2..int_sqrt n}. \<not> i dvd n)"
    by (simp add: dvd_eq_mod_eq_0)
  finally show "fst (is_prime n) \<longleftrightarrow> prime_number n" using pr by simp
qed

theorem is_prime_correct_witness:
  "((1::int) < 2 \<and> fst (is_prime 1) = False) \<and>
   ((2::int) \<le> 7 \<and> (7::int) \<le> 100000 \<and> fst (is_prime 7) \<and> prime_number 7 \<and>
      (prime_number 7 \<longleftrightarrow> (\<forall>i\<in>{2..\<lfloor>sqrt (real_of_int 7)\<rfloor>}. \<not> i dvd (7::int)))) \<and>
   ((2::int) \<le> 9 \<and> (9::int) \<le> 100000 \<and> \<not> fst (is_prime 9) \<and> \<not> prime_number 9)"
proof -
  have e1: "fst (is_prime 7)" by code_simp
  have e2: "\<not> fst (is_prime 9)" by code_simp
  show ?thesis
    using is_prime_correct[of 1] is_prime_correct[of 7] is_prime_correct[of 9] e1 e2
    by auto
qed

section \<open>Verification of the persistence adapter\<close>

text \<open>
  Claim C4. \<open>load_security_data\<close> returns the parsed document when the file exists and
  parses; whenever the file is absent or malformed it returns the fresh empty document
  (no assessments, no goals, no habits, no last assessment); it never raises.
\<close>

theorem load_security_data_total:
  "(\<forall>content d. f = Some content \<and> json_load content = Inr d
       \<longrightarrow> load_security_data json_load f = Inr d) \<and>
   (f = None \<or> (\<exists>content e. f = Some content \<and> json_load content = Inl e)
       \<longrightarrow> load_security_data json_load f = Inr new_document) \<and>
   (\<exists>d. load_security_data json_load f = Inr d)"
  by (auto simp: load_security_data_def open_read_def split: option.splits sum.splits)

theorem load_security_data_total_witness:
  "load_security_data
      (\<lambda>s. if s = ''{}'' then Inr (new_document\<lparr>habits := [''h'']\<rparr>) else Inl JSONDecodeError)
      (Some ''{}'') = Inr (new_document\<lparr>habits := [''h'']\<rparr>) \<and>
   load_security_data
      (\<lambda>s. if s = ''{}'' then Inr (new_document\<lparr>habits := [''h'']\<rparr>) else Inl JSONDecodeError)
      (Some ''{'') = Inr new_document \<and>
   load_security_data
      (\<lambda>s. if s = ''{}'' then Inr (new_document\<lparr>habits := [''h'']\<rparr>) else Inl JSONDecodeError)
      None = Inr new_document"
  using
    load_security_data_total[of "Some ''{}''"
      "\<lambda>s. if s = ''{}'' then Inr (new_document\<lparr>habits := [''h'']\<rparr>) else Inl JSONDecodeError"]
    load_security_data_total[of "Some ''{''"
      "\<lambda>s. if s = ''{}'' then Inr (new_document\<lparr>habits := [''h'']\<rparr>) else Inl JSONDecodeError"]
    load_security_data_total[of None
      "\<lambda>s. if s = ''{}'' then Inr (new_document\<lparr>habits := [''h'']\<rparr>) else Inl JSONDecodeError"]
  by simp

section \<open>Verification of the goal tracker\<close>









lemma goal_update_fixed:
  "g\<lparr>progress := v, completed := c\<rparr> = g \<Longrightarrow> progress g = v"
  by (drule arg_cong[where f = progress]) simp

lemma active_goals_loop_no_button:
  "active_goals_loop json_dump slider (\<lambda>_. False) data seen todo f =
     (data\<lparr>goals := seen @ map (slide slider) todo\<rparr>,
      (if map (slide slider) todo = todo then f
       else Some (json_dump (data\<lparr>goals := seen @ map (slide slider) todo\<rparr>))),
      False)"
proof (induction todo arbitrary: seen f)
  case Nil
  show ?case by simp
next
  case (Cons g rest)
  show ?case
  proof (cases "slide slider g = g")
    case True
    have "active_goals_loop json_dump slider (\<lambda>_. False) data seen (g # rest) f =
          active_goals_loop json_dump slider (\<lambda>_. False) data (seen @ [g]) rest f"
      using True by (auto simp: slide_def Let_def split: option.splits if_splits dest: goal_update_fixed)
    then show ?thesis using True Cons.IH[of "seen @ [g]" f] by simp
  next
    case False
    let ?g1 = "slide slider g"
    let ?f1 = "Some (json_dump (data\<lparr>goals := seen @ ?g1 # rest\<rparr>))"
    have "active_goals_loop json_dump slider (\<lambda>_. False) data seen (g # rest) f =
          active_goals_loop json_dump slider (\<lambda>_. False) data (seen @ [?g1]) rest ?f1"
      using False by (auto simp: slide_def Let_def save_security_data_def split: option.splits if_splits)
    then show ?thesis using False Cons.IH[of "seen @ [?g1]" ?f1] by simp
  qed
qed


lemma update_progress_goals:
  "update_progress json_dump gid p (data, f) =
     (data\<lparr>goals := map (slide [gid \<mapsto> p]) (goals data)\<rparr>,
      (if map (slide [gid \<mapsto> p]) (goals data) = goals data then f
       else Some (json_dump (data\<lparr>goals := map (slide [gid \<mapsto> p]) (goals data)\<rparr>))))"
  by (simp add: update_progress_def render_active_goals_def active_goals_loop_no_button)

lemma slide_other: "goal_id g \<noteq> gid \<or> completed g \<Longrightarrow> slide [gid \<mapsto> p] g = g"
  by (auto simp: slide_def)

lemma slide_absent:
  "gid \<notin> goal_id ` set gs \<Longrightarrow> map (slide [gid \<mapsto> p]) gs = gs"
  by (induction gs) (auto simp: slide_other)

lemma slide_active:
  "goal_id g = gid \<Longrightarrow> \<not> completed g \<Longrightarrow>
   progress (slide [gid \<mapsto> p] g) = p \<and>
   (completed (slide [gid \<mapsto> p] g) \<longleftrightarrow> 100 \<le> p \<and> p \<noteq> progress g) \<and>
   slide [gid \<mapsto> p] g = g\<lparr>progress := p, completed := (100 \<le> p \<and> p \<noteq> progress g)\<rparr>"
  by (auto simp: slide_def)

text \<open>
  Claim C3, amended. For every goal that is not completed, \<open>update_progress\<close> sets the
  goal's progress to the new value and sets completed exactly when the new value is at
  least 100 and differs from the stored progress; so a goal in progress below 100 that is
  moved to 100 or more is completed afterwards. A completed goal and every goal with
  another id are left as they are, and an id that no goal has changes nothing.
\<close>

theorem update_progress_active:
  "length (goals (fst (update_progress json_dump gid p (data, f)))) = length (goals data) \<and>
   (\<forall>i<length (goals data).
      (goal_id (goals data ! i) = gid \<and> \<not> completed (goals data ! i) \<longrightarrow>
         goals (fst (update_progress json_dump gid p (data, f))) ! i
           = (goals data ! i)\<lparr>progress := p, completed := (100 \<le> p \<and> p \<noteq> progress (goals data ! i))\<rparr>) \<and>
      (goal_id (goals data ! i) = gid \<and> \<not> completed (goals data ! i)
          \<and> progress (goals data ! i) < 100 \<and> 100 \<le> p \<longrightarrow>
         completed (goals (fst (update_progress json_dump gid p (data, f))) ! i)) \<and>
      (goal_id (goals data ! i) \<noteq> gid \<or> completed (goals data ! i) \<longrightarrow>
         goals (fst (update_progress json_dump gid p (data, f))) ! i = goals data ! i)) \<and>
   (gid \<notin> goal_id ` set (goals data) \<longrightarrow>
      update_progress json_dump gid p (data, f) = (data, f))"
proof (intro conjI allI impI)
  show "length (goals (fst (update_progress json_dump gid p (data, f)))) = length (goals data)"
    by (simp add: update_progress_goals)
next
  fix i assume i: "i < length (goals data)"
    and a: "goal_id (goals data ! i) = gid \<and> \<not> completed (goals data ! i)"
  show "goals (fst (update_progress json_dump gid p (data, f))) ! i
      = (goals data ! i)\<lparr>progress := p, completed := (100 \<le> p \<and> p \<noteq> progress (goals data ! i))\<rparr>"
    using i a slide_active[of "goals data ! i" gid p] by (simp add: update_progress_goals)
next
  fix i assume i: "i < length (goals data)"
    and a: "goal_id (goals data ! i) = gid \<and> \<not> completed (goals data ! i)
          \<and> progress (goals data ! i) < 100 \<and> 100 \<le> p"
  show "completed (goals (fst (update_progress json_dump gid p (data, f))) ! i)"
    using i a slide_active[of "goals data ! i" gid p] by (simp add: update_progress_goals)
next
  fix i assume i: "i < length (goals data)"
    and a: "goal_id (goals data ! i) \<noteq> gid \<or> completed (goals data ! i)"
  show "goals (fst (update_progress json_dump gid p (data, f))) ! i = goals data ! i"
    using i slide_other[OF a, of p] by (simp add: update_progress_goals)
next
  assume "gid \<notin> goal_id ` set (goals data)"
  then show "update_progress json_dump gid p (data, f) = (data, f)"
    by (simp add: update_progress_goals slide_absent)
qed

text \<open>
  Claim C3 as stated fails on a completed goal: the page shows sliders for the goals that
  are not completed only, so a completed goal keeps its progress.
\<close>

theorem update_progress_completed_counterexample: "progress (goals (fst (update_progress (\<lambda>d. ''saved'') 1 50
     (new_document\<lparr>goals := [example_active_goal, example_completed_goal]\<rparr>, None))) ! 1) \<noteq> 50"
  by (simp add: update_progress_def render_active_goals_def new_document_def example_active_goal_def example_completed_goal_def Let_def)

theorem update_progress_active_witness:
  "(goal_id ([example_active_goal, example_completed_goal] ! 0) = 0 \<and> \<not> completed ([example_active_goal, example_completed_goal] ! 0) \<and> progress ([example_active_goal, example_completed_goal] ! 0) < 100 \<and> (100::int) \<le> 100) \<and>
   goals (fst (update_progress (\<lambda>d. ''saved'') 0 100 (new_document\<lparr>goals := [example_active_goal, example_completed_goal]\<rparr>, None))) ! 0
     = example_active_goal\<lparr>progress := 100, completed := True\<rparr> \<and>
   completed (goals (fst (update_progress (\<lambda>d. ''saved'') 0 100 (new_document\<lparr>goals := [example_active_goal, example_completed_goal]\<rparr>, None))) ! 0) \<and>
   (completed ([example_active_goal, example_completed_goal] ! 1) \<or>
      goal_id ([example_active_goal, example_completed_goal] ! 1) \<noteq> 0) \<and>
   goals (fst (update_progress (\<lambda>d. ''saved'') 0 100 (new_document\<lparr>goals := [example_active_goal, example_completed_goal]\<rparr>, None))) ! 1 = example_completed_goal \<and>
   7 \<notin> goal_id ` set [example_active_goal, example_completed_goal] \<and>
   update_progress (\<lambda>d. ''saved'') 7 60 (new_document\<lparr>goals := [example_active_goal, example_completed_goal]\<rparr>, None)
     = (new_document\<lparr>goals := [example_active_goal, example_completed_goal]\<rparr>, None)"
proof -
  let ?d = "new_document\<lparr>goals := [example_active_goal, example_completed_goal]\<rparr>"
  have g: "goals ?d = [example_active_goal, example_completed_goal]" by simp
  note a = update_progress_active[of "\<lambda>d. ''saved''" 0 100 ?d None, unfolded g]
  note c = update_progress_active[of "\<lambda>d. ''saved''" 7 60 ?d None, unfolded g]
  have h0: "goal_id ([example_active_goal, example_completed_goal] ! 0) = 0 \<and> \<not> completed ([example_active_goal, example_completed_goal] ! 0) \<and> progress ([example_active_goal, example_completed_goal] ! 0) < 100 \<and> (100::int) \<le> 100"
    by (simp add: example_active_goal_def)
  have h1: "goal_id ([example_active_goal, example_completed_goal] ! 1) \<noteq> 0 \<or> completed ([example_active_goal, example_completed_goal] ! 1)" by (simp add: example_completed_goal_def)
  have h7: "7 \<notin> goal_id ` set [example_active_goal, example_completed_goal]" by (simp add: example_active_goal_def example_completed_goal_def)
  have a0: "goals (fst (update_progress (\<lambda>d. ''saved'') 0 100 (?d, None))) ! 0
             = example_active_goal\<lparr>progress := 100, completed := True\<rparr>"
    using a[THEN conjunct2, THEN conjunct1, rule_format, of 0] h0 by (simp add: example_active_goal_def)
  have a0': "completed (goals (fst (update_progress (\<lambda>d. ''saved'') 0 100 (?d, None))) ! 0)"
    using a[THEN conjunct2, THEN conjunct1, rule_format, of 0] h0 by simp
  have a1: "goals (fst (update_progress (\<lambda>d. ''saved'') 0 100 (?d, None))) ! 1 = example_completed_goal"
    using a[THEN conjunct2, THEN conjunct1, rule_format, of 1] h1 by simp
  have c7: "update_progress (\<lambda>d. ''saved'') 7 60 (?d, None) = (?d, None)"
    using c h7 by blast
  show ?thesis using h0 h1 h7 a0 a0' a1 c7 by blast
qed


text \<open>
  Creating goals and running the loop over the active goals, whatever the sliders and the
  buttons, keep every goal that is not completed below 100: the condition under which a
  slider moved to 100 or more completes its goal.
\<close>

lemma active_below_100_append:
  "active_below_100 (xs @ ys) \<longleftrightarrow> active_below_100 xs \<and> active_below_100 ys"
  by (simp add: active_below_100_def)

lemma active_below_100_Cons:
  "active_below_100 (g # gs) \<longleftrightarrow> (completed g \<or> progress g < 100) \<and> active_below_100 gs"
  by (simp add: active_below_100_def)

lemma create_goal_active_below_100:
  "active_below_100 (goals data) \<Longrightarrow>
   active_below_100 (goals (fst (create_goal json_dump clicked form now (data, f))))"
  by (simp add: create_goal_def Let_def active_below_100_append active_below_100_Cons)
     (simp add: active_below_100_def)

lemma loop_step_not_pressed:
  "completed g \<or> \<not> pressed (goal_id g) \<Longrightarrow>
   \<exists>f1. active_goals_loop json_dump slider pressed data seen (g # rest) f =
         active_goals_loop json_dump slider pressed data (seen @ [slide slider g]) rest f1"
  by (auto simp: slide_def Let_def split: option.splits)

lemma loop_step_pressed:
  "\<not> completed g \<Longrightarrow> pressed (goal_id g) \<Longrightarrow>
   goals (fst (active_goals_loop json_dump slider pressed data seen (g # rest) f)) =
     seen @ (slide slider g)\<lparr>completed := True, progress := 100\<rparr> # rest"
  by (auto simp: slide_def Let_def split: option.splits)

lemma slide_below_100:
  "completed g \<or> progress g < 100 \<Longrightarrow> completed (slide slider g) \<or> progress (slide slider g) < 100"
  by (auto simp: slide_def split: option.splits)

lemma active_goals_loop_active_below_100:
  "active_below_100 seen \<Longrightarrow> active_below_100 todo \<Longrightarrow>
   active_below_100 (goals (fst (active_goals_loop json_dump slider pressed data seen todo f)))"
proof (induction todo arbitrary: seen f)
  case Nil
  then show ?case by simp
next
  case (Cons g rest)
  have r: "active_below_100 rest" and g: "completed g \<or> progress g < 100"
    using Cons.prems(2) by (simp_all add: active_below_100_Cons)
  show ?case
  proof (cases "completed g \<or> \<not> pressed (goal_id g)")
    case True
    from loop_step_not_pressed[of g pressed json_dump slider data seen rest f, OF True] obtain f1 where
      s: "active_goals_loop json_dump slider pressed data seen (g # rest) f =
          active_goals_loop json_dump slider pressed data (seen @ [slide slider g]) rest f1"
      by blast
    have "active_below_100 (seen @ [slide slider g])"
      using Cons.prems(1) slide_below_100[OF g]
      by (simp add: active_below_100_append active_below_100_Cons) (simp add: active_below_100_def)
    then show ?thesis unfolding s using Cons.IH r by blast
  next
    case False
    then have "\<not> completed g" "pressed (goal_id g)" by auto
    from loop_step_pressed[of g pressed json_dump slider data seen rest f, OF this] show ?thesis
      using Cons.prems(1) r by (simp add: active_below_100_append active_below_100_Cons)
  qed
qed

lemma render_active_goals_active_below_100:
  "active_below_100 (goals data) \<Longrightarrow>
   active_below_100 (goals (fst (render_active_goals json_dump slider pressed (data, f))))"
  using active_goals_loop_active_below_100[of "[]" "goals data"]
  by (simp add: render_active_goals_def active_below_100_def)

section \<open>Verification of the assessment engine\<close>

text \<open>
  The sums of the assessment are multiples of 2.5 between 0 and 100. These are doubles,
  and so are their sums: the scoring loop computes without rounding error.
\<close>

lemma fl_grid_table: "list_all (\<lambda>k. fl (grid_point k) = grid_point k) [0..40]"
  by code_simp

lemma fl_grid: "0 \<le> k \<Longrightarrow> k \<le> 40 \<Longrightarrow> fl (grid_point k) = grid_point k"
  using fl_grid_table by (simp add: list_all_iff)

lemma grid_point_add: "grid_point (j + k) = grid_point j + grid_point k"
  by (simp add: grid_point_def algebra_simps)

lemma grid_point_le_100: "grid_point k \<le> 100 \<longleftrightarrow> k \<le> 40"
  by (simp add: grid_point_def)

lemma grid_point_nonneg: "0 \<le> k \<Longrightarrow> 0 \<le> grid_point k"
  by (simp add: grid_point_def)

lemma on_grid_nonneg: "on_grid v \<Longrightarrow> 0 \<le> num_value v"
  by (auto simp: on_grid_def grid_point_nonneg)

lemma fl_on_grid: "on_grid v \<Longrightarrow> fl (num_value v) = num_value v"
  by (auto simp: on_grid_def fl_grid)

lemma to_float_grid: "on_grid v \<Longrightarrow> to_float v = num_value v"
  using fl_on_grid[of v] by (cases v) auto

lemma grid_sum:
  assumes "on_grid a" "on_grid b" "num_value a + num_value b \<le> 100"
  shows "\<exists>k. 0 \<le> k \<and> k \<le> 40 \<and> num_value a + num_value b = grid_point k"
proof -
  obtain ka kb where a: "0 \<le> ka" "num_value a = grid_point ka"
    and b: "0 \<le> kb" "num_value b = grid_point kb"
    using assms(1,2) by (auto simp: on_grid_def)
  have s: "num_value a + num_value b = grid_point (ka + kb)"
    using a b by (simp only: grid_point_add)
  then have "ka + kb \<le> 40" using assms(3) by (simp only: grid_point_le_100)
  then show ?thesis using a b s by (intro exI[of _ "ka + kb"]) simp
qed

lemma py_add_grid:
  assumes "on_grid a" "on_grid b" "num_value a + num_value b \<le> 100"
  shows "num_value (py_add a b) = num_value a + num_value b" "on_grid (py_add a b)"
proof -
  obtain k where k: "0 \<le> k" "k \<le> 40" "num_value a + num_value b = grid_point k"
    using grid_sum[OF assms] by blast
  have f: "fl (to_float a + to_float b) = num_value a + num_value b"
    unfolding to_float_grid[OF assms(1)] to_float_grid[OF assms(2)] k(3)
    using k(1,2) by (rule fl_grid)
  show v: "num_value (py_add a b) = num_value a + num_value b"
    using f by (cases a; cases b) simp_all
  show "on_grid (py_add a b)"
    unfolding on_grid_def using v k by metis
qed

lemma question_score_grid:
  assumes "5 dvd weight q" "0 \<le> weight q" "weight q \<le> 100"
  shows "num_value (question_score q (answer_text x)) = spec_score (weight q) x"
    and "on_grid (question_score q (answer_text x))"
proof -
  obtain j where j: "weight q = 5 * j" using assms(1) by (auto simp: dvd_def)
  have jb: "0 \<le> j" "j \<le> 20" using assms(2,3) j by auto
  have w: "(of_int (weight q) :: rat) = grid_point (2 * j)" using j by (simp add: grid_point_def)
  have fw: "fl (of_int (weight q)) = of_int (weight q)"
    unfolding w using jb by (intro fl_grid) auto
  have h: "(of_int (weight q) :: rat) * (1 / 2) = grid_point j" using j by (simp add: grid_point_def)
  have fh: "fl (of_int (weight q) * (1 / 2)) = grid_point j"
    unfolding h using jb by (intro fl_grid) auto
  have h': "(of_int (weight q) :: rat) / 2 = grid_point j" using j by (simp add: grid_point_def)
  have p: "num_value (question_score q ''Partially'') = grid_point j"
    using fw fh by (simp add: question_score_def)
  show "num_value (question_score q (answer_text x)) = spec_score (weight q) x"
  proof (cases x)
    case Yes then show ?thesis by (simp add: question_score_def)
  next
    case Partially then show ?thesis using p h' by simp
  next
    case No then show ?thesis by (simp add: question_score_def)
  qed
  show "on_grid (question_score q (answer_text x))"
  proof (cases x)
    case Yes
    have "num_value (question_score q ''Yes'') = grid_point (2 * j)"
      using w by (simp add: question_score_def)
    then show ?thesis unfolding on_grid_def using Yes jb
      by (intro exI[of _ "2 * j"]) simp
  next
    case Partially
    then show ?thesis unfolding on_grid_def using p jb
      by (intro exI[of _ j]) simp
  next
    case No
    have "num_value (question_score q ''No'') = grid_point 0"
      by (simp add: question_score_def grid_point_def)
    then show ?thesis unfolding on_grid_def using No
      by (intro exI[of _ 0]) simp
  qed
qed

lemma spec_score_bounds: "0 \<le> w \<Longrightarrow> 0 \<le> spec_score w x \<and> spec_score w x \<le> of_int w"
  by (cases x) simp_all


lemma map_of_category_step:
  "map_of (AList.map_entry c (\<lambda>e. e\<lparr>cs_max := cs_max e + w\<rparr>)
            (AList.map_entry c (\<lambda>e. e\<lparr>cs_score := py_add (cs_score e) s\<rparr>)
               (if map_of cats c = None then AList.update c \<lparr>cs_score = PyInt 0, cs_max = 0\<rparr> cats
                else cats)))
   = (map_of cats)(c \<mapsto>
        (case map_of cats c of
           None \<Rightarrow> \<lparr>cs_score = py_add (PyInt 0) s, cs_max = w\<rparr>
         | Some old \<Rightarrow> \<lparr>cs_score = py_add (cs_score old) s, cs_max = cs_max old + w\<rparr>))"
  by (auto simp: map_of_map_entry update_conv' fun_eq_iff split: option.splits)

lemma on_grid_zero: "on_grid (PyInt 0)"
  unfolding on_grid_def by (intro exI[of _ 0]) (simp add: grid_point_def)

lemma score_loop_values:
  assumes "\<forall>q\<in>set qs. map_of rs (q_id q) = Some (answer_text (a (q_id q)))"
    and "\<forall>q\<in>set qs. 5 dvd weight q \<and> 0 \<le> weight q"
    and "on_grid tot"
    and "num_value tot + of_int (\<Sum>q\<leftarrow>qs. weight q) \<le> 100"
    and "\<forall>c e. map_of cats c = Some e \<longrightarrow> on_grid (cs_score e) \<and> num_value (cs_score e) \<le> num_value tot"
  shows "\<exists>tot' cats'. score_loop rs qs (tot, cats) = Inr (tot', cats') \<and> on_grid tot' \<and>
          num_value tot' = num_value tot + (\<Sum>q\<leftarrow>qs. spec_score (weight q) (a (q_id q))) \<and>
          (\<forall>c. case map_of cats' c of
                 None \<Rightarrow> map_of cats c = None \<and> c \<notin> q_category ` set qs
               | Some e' \<Rightarrow>
                   (c \<in> q_category ` set qs \<or> map_of cats c \<noteq> None) \<and>
                   num_value (cs_score e') =
                     (case map_of cats c of None \<Rightarrow> 0 | Some e \<Rightarrow> num_value (cs_score e))
                     + (\<Sum>q\<leftarrow>filter (\<lambda>q. q_category q = c) qs. spec_score (weight q) (a (q_id q))) \<and>
                   cs_max e' =
                     (case map_of cats c of None \<Rightarrow> 0 | Some e \<Rightarrow> cs_max e)
                     + (\<Sum>q\<leftarrow>filter (\<lambda>q. q_category q = c) qs. weight q))"
  using assms
proof (induction qs arbitrary: tot cats)
  case Nil
  show ?case by (auto simp: Nil.prems(3) split: option.splits)
next
  case (Cons q qs)
  let ?c = "q_category q"
  let ?x = "a (q_id q)"
  let ?s = "question_score q (answer_text ?x)"
  let ?sv = "spec_score (weight q) ?x"
  let ?tot1 = "py_add tot ?s"
  let ?new = "(case map_of cats ?c of
           None \<Rightarrow> \<lparr>cs_score = py_add (PyInt 0) ?s, cs_max = weight q\<rparr>
         | Some old \<Rightarrow> \<lparr>cs_score = py_add (cs_score old) ?s, cs_max = cs_max old + weight q\<rparr>)"
  let ?cats1 = "AList.map_entry ?c (\<lambda>e. e\<lparr>cs_max := cs_max e + weight q\<rparr>)
            (AList.map_entry ?c (\<lambda>e. e\<lparr>cs_score := py_add (cs_score e) ?s\<rparr>)
               (if map_of cats ?c = None then AList.update ?c \<lparr>cs_score = PyInt 0, cs_max = 0\<rparr> cats
                else cats))"
  have wq: "5 dvd weight q" "0 \<le> weight q" using Cons.prems(2) by auto
  have rest_nonneg: "0 \<le> (\<Sum>q\<leftarrow>qs. weight q)"
    using Cons.prems(2) by (intro sum_list_nonneg) auto
  have tv0: "0 \<le> num_value tot" using Cons.prems(3) by (rule on_grid_nonneg)
  have bound: "num_value tot + of_int (weight q) + of_int (\<Sum>q\<leftarrow>qs. weight q) \<le> 100"
    using Cons.prems(4) by simp
  have rn: "(0::rat) \<le> of_int (\<Sum>q\<leftarrow>qs. weight q)" using rest_nonneg by simp
  have "(of_int (weight q) :: rat) \<le> 100" using bound tv0 rn by linarith
  then have w100: "weight q \<le> 100" by linarith
  have sv: "num_value ?s = ?sv" and sg: "on_grid ?s"
    using question_score_grid[OF wq w100] by auto
  have svb: "0 \<le> ?sv" "?sv \<le> of_int (weight q)"
    using spec_score_bounds[OF wq(2)] by auto
  have tsum: "num_value tot + num_value ?s \<le> 100" using bound svb rn sv by linarith
  have t1v: "num_value ?tot1 = num_value tot + ?sv" and t1g: "on_grid ?tot1"
    using py_add_grid[OF Cons.prems(3) sg tsum] sv by auto
  have r: "map_of rs (q_id q) = Some (answer_text ?x)" using Cons.prems(1) by simp
  have step: "score_loop rs (q # qs) (tot, cats) = score_loop rs qs (?tot1, ?cats1)"
    using r by (simp add: Let_def)
  have m1: "map_of ?cats1 = (map_of cats)(?c \<mapsto> ?new)"
    by (rule map_of_category_step)
  have base: "\<And>b. on_grid b \<Longrightarrow> num_value b \<le> num_value tot \<Longrightarrow>
      on_grid (py_add b ?s) \<and> num_value (py_add b ?s) = num_value b + ?sv"
  proof -
    fix b assume b: "on_grid b" "num_value b \<le> num_value tot"
    have "num_value b + num_value ?s \<le> 100" using b(2) tsum by linarith
    from py_add_grid[OF b(1) sg this] sv
    show "on_grid (py_add b ?s) \<and> num_value (py_add b ?s) = num_value b + ?sv" by simp
  qed
  have newv: "on_grid (cs_score ?new) \<and>
      num_value (cs_score ?new) =
        (case map_of cats ?c of None \<Rightarrow> 0 | Some e \<Rightarrow> num_value (cs_score e)) + ?sv \<and>
      cs_max ?new = (case map_of cats ?c of None \<Rightarrow> 0 | Some e \<Rightarrow> cs_max e) + weight q"
  proof (cases "map_of cats ?c")
    case None
    then show ?thesis using base[OF on_grid_zero] tv0 by simp
  next
    case (Some old)
    then have "on_grid (cs_score old)" "num_value (cs_score old) \<le> num_value tot"
      using Cons.prems(5) by auto
    then show ?thesis using Some base by simp
  qed
  have base_le: "(case map_of cats ?c of None \<Rightarrow> 0 | Some e \<Rightarrow> num_value (cs_score e)) \<le> num_value tot"
    using Cons.prems(5) tv0 by (auto split: option.splits)
  have p1: "\<forall>q\<in>set qs. map_of rs (q_id q) = Some (answer_text (a (q_id q)))"
    using Cons.prems(1) by simp
  have p2: "\<forall>q\<in>set qs. 5 dvd weight q \<and> 0 \<le> weight q" using Cons.prems(2) by simp
  have p4: "num_value ?tot1 + of_int (\<Sum>q\<leftarrow>qs. weight q) \<le> 100"
    using t1v bound svb by linarith
  have p5: "\<forall>c e. map_of ?cats1 c = Some e \<longrightarrow>
      on_grid (cs_score e) \<and> num_value (cs_score e) \<le> num_value ?tot1"
  proof (intro allI impI)
    fix c e assume ce: "map_of ?cats1 c = Some e"
    show "on_grid (cs_score e) \<and> num_value (cs_score e) \<le> num_value ?tot1"
    proof (cases "c = ?c")
      case True
      then have e: "e = ?new" using ce unfolding m1 by simp
      have nv: "num_value (cs_score ?new) =
        (case map_of cats ?c of None \<Rightarrow> 0 | Some e \<Rightarrow> num_value (cs_score e)) + ?sv"
        using newv by blast
      have "num_value (cs_score ?new) \<le> num_value ?tot1"
        unfolding nv t1v using base_le by linarith
      then show ?thesis unfolding e using newv by blast
    next
      case False
      then have "map_of cats c = Some e" using ce unfolding m1 by simp
      then show ?thesis using Cons.prems(5) t1v svb by fastforce
    qed
  qed
  from Cons.IH[OF p1 p2 t1g p4 p5]
  obtain tot' cats' where l: "score_loop rs qs (?tot1, ?cats1) = Inr (tot', cats')"
    and g: "on_grid tot'"
    and v: "num_value tot' = num_value ?tot1 + (\<Sum>q\<leftarrow>qs. spec_score (weight q) (a (q_id q)))"
    and c: "\<And>c. case map_of cats' c of
                 None \<Rightarrow> map_of ?cats1 c = None \<and> c \<notin> q_category ` set qs
               | Some e' \<Rightarrow>
                   (c \<in> q_category ` set qs \<or> map_of ?cats1 c \<noteq> None) \<and>
                   num_value (cs_score e') =
                     (case map_of ?cats1 c of None \<Rightarrow> 0 | Some e \<Rightarrow> num_value (cs_score e))
                     + (\<Sum>q\<leftarrow>filter (\<lambda>q. q_category q = c) qs. spec_score (weight q) (a (q_id q))) \<and>
                   cs_max e' =
                     (case map_of ?cats1 c of None \<Rightarrow> 0 | Some e \<Rightarrow> cs_max e)
                     + (\<Sum>q\<leftarrow>filter (\<lambda>q. q_category q = c) qs. weight q)"
    by blast
  show ?case
  proof (intro exI[of _ tot'] exI[of _ cats'] conjI allI)
    show "score_loop rs (q # qs) (tot, cats) = Inr (tot', cats')" using step l by simp
    show "on_grid tot'" by (rule g)
    show "num_value tot' = num_value tot + (\<Sum>q\<leftarrow>q # qs. spec_score (weight q) (a (q_id q)))"
      using v t1v by simp
  next
    fix c
    show "case map_of cats' c of
                 None \<Rightarrow> map_of cats c = None \<and> c \<notin> q_category ` set (q # qs)
               | Some e' \<Rightarrow>
                   (c \<in> q_category ` set (q # qs) \<or> map_of cats c \<noteq> None) \<and>
                   num_value (cs_score e') =
                     (case map_of cats c of None \<Rightarrow> 0 | Some e \<Rightarrow> num_value (cs_score e))
                     + (\<Sum>q\<leftarrow>filter (\<lambda>q. q_category q = c) (q # qs). spec_score (weight q) (a (q_id q))) \<and>
                   cs_max e' =
                     (case map_of cats c of None \<Rightarrow> 0 | Some e \<Rightarrow> cs_max e)
                     + (\<Sum>q\<leftarrow>filter (\<lambda>q. q_category q = c) (q # qs). weight q)"
    proof (cases "c = ?c")
      case True
      have m: "map_of ?cats1 c = Some ?new" unfolding m1 using True by simp
      show ?thesis using c[of c] newv True unfolding m
        by (auto split: option.splits)
    next
      case False
      have m: "map_of ?cats1 c = map_of cats c" unfolding m1 using False by simp
      show ?thesis using c[of c] False unfolding m
        by (auto split: option.splits)
    qed
  qed
qed

lemma questions_weights: "\<forall>q\<in>set questions. 5 dvd weight q \<and> 0 \<le> weight q"
  by (simp add: questions_def)

lemma questions_max_score: "sum_list (map weight questions) = 100"
  by (simp add: questions_def)

lemma grid_point_40: "grid_point 40 = 100"
  by (simp add: grid_point_def)

lemma fl_100: "fl 100 = 100"
  using fl_grid[of 40] by (simp add: grid_point_40)

lemma percentage_of_grid:
  assumes "on_grid tot"
  shows "py_truediv tot (PyInt 100) = Inr (PyFloat (fl (num_value tot / 100)))"
    and "py_mul (PyFloat y) (PyInt 100) = PyFloat (fl (y * 100))"
  using assms by (cases tot; simp add: fl_100)+

lemma score_loop_initial:
  assumes "\<forall>q\<in>set qs. map_of rs (q_id q) = Some (answer_text (a (q_id q)))"
    and "\<forall>q\<in>set qs. 5 dvd weight q \<and> 0 \<le> weight q"
    and "(\<Sum>q\<leftarrow>qs. weight q) \<le> 100"
  shows "\<exists>tot' cats'. score_loop rs qs (PyInt 0, []) = Inr (tot', cats') \<and> on_grid tot' \<and>
          num_value tot' = (\<Sum>q\<leftarrow>qs. spec_score (weight q) (a (q_id q))) \<and>
          (\<forall>c. case map_of cats' c of
                 None \<Rightarrow> c \<notin> q_category ` set qs
               | Some e' \<Rightarrow>
                   c \<in> q_category ` set qs \<and>
                   num_value (cs_score e') =
                     (\<Sum>q\<leftarrow>filter (\<lambda>q. q_category q = c) qs. spec_score (weight q) (a (q_id q))) \<and>
                   cs_max e' = (\<Sum>q\<leftarrow>filter (\<lambda>q. q_category q = c) qs. weight q))"
proof -
  have b: "num_value (PyInt 0) + of_int (\<Sum>q\<leftarrow>qs. weight q) \<le> 100"
    using assms(3) by simp
  have e: "\<forall>c e. map_of ([] :: (string \<times> category_score) list) c = Some e \<longrightarrow>
      on_grid (cs_score e) \<and> num_value (cs_score e) \<le> num_value (PyInt 0)"
    by simp
  from score_loop_values[OF assms(1,2) on_grid_zero b e]
  obtain tot' cats' where l: "score_loop rs qs (PyInt 0, []) = Inr (tot', cats')"
    and g: "on_grid tot'"
    and v: "num_value tot' = num_value (PyInt 0) + (\<Sum>q\<leftarrow>qs. spec_score (weight q) (a (q_id q)))"
    and c: "\<forall>c. case map_of cats' c of
                 None \<Rightarrow> map_of ([] :: (string \<times> category_score) list) c = None
                          \<and> c \<notin> q_category ` set qs
               | Some e' \<Rightarrow>
                   (c \<in> q_category ` set qs
                      \<or> map_of ([] :: (string \<times> category_score) list) c \<noteq> None) \<and>
                   num_value (cs_score e') =
                     (case map_of ([] :: (string \<times> category_score) list) c of
                        None \<Rightarrow> 0 | Some e \<Rightarrow> num_value (cs_score e))
                     + (\<Sum>q\<leftarrow>filter (\<lambda>q. q_category q = c) qs. spec_score (weight q) (a (q_id q))) \<and>
                   cs_max e' =
                     (case map_of ([] :: (string \<times> category_score) list) c of
                        None \<Rightarrow> 0 | Some e \<Rightarrow> cs_max e)
                     + (\<Sum>q\<leftarrow>filter (\<lambda>q. q_category q = c) qs. weight q)"
    by blast
  have c': "\<forall>c. case map_of cats' c of
                 None \<Rightarrow> c \<notin> q_category ` set qs
               | Some e' \<Rightarrow>
                   c \<in> q_category ` set qs \<and>
                   num_value (cs_score e') =
                     (\<Sum>q\<leftarrow>filter (\<lambda>q. q_category q = c) qs. spec_score (weight q) (a (q_id q))) \<and>
                   cs_max e' = (\<Sum>q\<leftarrow>filter (\<lambda>q. q_category q = c) qs. weight q)"
    using c by (simp cong: option.case_cong)
  have v': "num_value tot' = (\<Sum>q\<leftarrow>qs. spec_score (weight q) (a (q_id q)))"
    using v by simp
  show ?thesis
    by (intro exI[of _ tot'] exI[of _ cats'] conjI) (rule l g v' c')+
qed

lemma calculate_security_score_value:
  assumes "\<forall>q\<in>set questions. map_of rs (q_id q) = Some (answer_text (a (q_id q)))"
  shows "\<exists>k cats. 0 \<le> k \<and> k \<le> 40 \<and>
      (\<Sum>q\<leftarrow>questions. spec_score (weight q) (a (q_id q))) = grid_point k \<and>
      calculate_security_score questions rs
        = Inr (PyFloat (fl (fl (grid_point k / 100) * 100)), cats) \<and>
      (\<forall>c. case map_of cats c of
               None \<Rightarrow> c \<notin> q_category ` set questions
             | Some e \<Rightarrow>
                 c \<in> q_category ` set questions \<and>
                 num_value (cs_score e) =
                   (\<Sum>q\<leftarrow>filter (\<lambda>q. q_category q = c) questions.
                       spec_score (weight q) (a (q_id q))) \<and>
                 cs_max e = (\<Sum>q\<leftarrow>filter (\<lambda>q. q_category q = c) questions. weight q))"
proof -
  have m: "(\<Sum>q\<leftarrow>questions. weight q) \<le> 100" by (simp add: questions_max_score)
  from score_loop_initial[OF assms questions_weights m]
  obtain tot cats where l: "score_loop rs questions (PyInt 0, []) = Inr (tot, cats)"
    and g: "on_grid tot"
    and v: "num_value tot = (\<Sum>q\<leftarrow>questions. spec_score (weight q) (a (q_id q)))"
    and c: "\<forall>c. case map_of cats c of
                 None \<Rightarrow> c \<notin> q_category ` set questions
               | Some e' \<Rightarrow>
                   c \<in> q_category ` set questions \<and>
                   num_value (cs_score e') =
                     (\<Sum>q\<leftarrow>filter (\<lambda>q. q_category q = c) questions. spec_score (weight q) (a (q_id q))) \<and>
                   cs_max e' = (\<Sum>q\<leftarrow>filter (\<lambda>q. q_category q = c) questions. weight q)"
    by blast
  obtain k where k: "0 \<le> k" "k \<le> 40" "num_value tot = grid_point k"
    using g by (auto simp: on_grid_def)
  have "calculate_security_score questions rs
        = Inr (PyFloat (fl (fl (grid_point k / 100) * 100)), cats)"
    using l percentage_of_grid[OF g] k(3)
    by (simp add: calculate_security_score_def questions_max_score)
  then show ?thesis
    using k v c by (intro exI[of _ k] exI[of _ cats]) simp
qed

text \<open>
  The percentage \<^verbatim>\<open>(total_score / max_score) * 100\<close> for each of the 41 possible totals.
\<close>

lemma responses_of_lookup:
  "q \<in> set questions \<Longrightarrow> map_of (responses_of a) (q_id q) = Some (answer_text (a (q_id q)))"
proof -
  have "\<And>qs. q \<in> set qs \<Longrightarrow>
      map_of (map (\<lambda>q. (q_id q, answer_text (a (q_id q)))) qs) (q_id q) = Some (answer_text (a (q_id q)))"
  proof -
    fix qs show "q \<in> set qs \<Longrightarrow>
      map_of (map (\<lambda>q. (q_id q, answer_text (a (q_id q)))) qs) (q_id q) = Some (answer_text (a (q_id q)))"
      by (induction qs) auto
  qed
  then show "q \<in> set questions \<Longrightarrow> map_of (responses_of a) (q_id q) = Some (answer_text (a (q_id q)))"
    unfolding responses_of_def by blast
qed

lemma spec_max_100: "spec_max = 100"
  by (simp add: spec_max_def questions_def)

lemma grid_point_cases:
  "grid_point k = 55 / 2 \<longleftrightarrow> k = 11" "grid_point k = 55 \<longleftrightarrow> k = 22" "grid_point k = 115 / 2 \<longleftrightarrow> k = 23"
  by (auto simp: grid_point_def)

lemma percentage_rows:
  shows
    "fl (fl (grid_point 0 / 100) * 100) = grid_point 0"
    "fl (fl (grid_point 1 / 100) * 100) = grid_point 1"
    "fl (fl (grid_point 2 / 100) * 100) = grid_point 2"
    "fl (fl (grid_point 3 / 100) * 100) = grid_point 3"
    "fl (fl (grid_point 4 / 100) * 100) = grid_point 4"
    "fl (fl (grid_point 5 / 100) * 100) = grid_point 5"
    "fl (fl (grid_point 6 / 100) * 100) = grid_point 6"
    "fl (fl (grid_point 7 / 100) * 100) = grid_point 7"
    "fl (fl (grid_point 8 / 100) * 100) = grid_point 8"
    "fl (fl (grid_point 9 / 100) * 100) = grid_point 9"
    "fl (fl (grid_point 10 / 100) * 100) = grid_point 10"
    "fl (fl (grid_point 11 / 100) * 100) = grid_point 11 + 1 / 2 ^ 48"
    "fl (fl (grid_point 12 / 100) * 100) = grid_point 12"
    "fl (fl (grid_point 13 / 100) * 100) = grid_point 13"
    "fl (fl (grid_point 14 / 100) * 100) = grid_point 14"
    "fl (fl (grid_point 15 / 100) * 100) = grid_point 15"
    "fl (fl (grid_point 16 / 100) * 100) = grid_point 16"
    "fl (fl (grid_point 17 / 100) * 100) = grid_point 17"
    "fl (fl (grid_point 18 / 100) * 100) = grid_point 18"
    "fl (fl (grid_point 19 / 100) * 100) = grid_point 19"
    "fl (fl (grid_point 20 / 100) * 100) = grid_point 20"
    "fl (fl (grid_point 21 / 100) * 100) = grid_point 21"
    "fl (fl (grid_point 22 / 100) * 100) = grid_point 22 + 1 / 2 ^ 47"
    "fl (fl (grid_point 23 / 100) * 100) = grid_point 23 - 1 / 2 ^ 47"
    "fl (fl (grid_point 24 / 100) * 100) = grid_point 24"
    "fl (fl (grid_point 25 / 100) * 100) = grid_point 25"
    "fl (fl (grid_point 26 / 100) * 100) = grid_point 26"
    "fl (fl (grid_point 27 / 100) * 100) = grid_point 27"
    "fl (fl (grid_point 28 / 100) * 100) = grid_point 28"
    "fl (fl (grid_point 29 / 100) * 100) = grid_point 29"
    "fl (fl (grid_point 30 / 100) * 100) = grid_point 30"
    "fl (fl (grid_point 31 / 100) * 100) = grid_point 31"
    "fl (fl (grid_point 32 / 100) * 100) = grid_point 32"
    "fl (fl (grid_point 33 / 100) * 100) = grid_point 33"
    "fl (fl (grid_point 34 / 100) * 100) = grid_point 34"
    "fl (fl (grid_point 35 / 100) * 100) = grid_point 35"
    "fl (fl (grid_point 36 / 100) * 100) = grid_point 36"
    "fl (fl (grid_point 37 / 100) * 100) = grid_point 37"
    "fl (fl (grid_point 38 / 100) * 100) = grid_point 38"
    "fl (fl (grid_point 39 / 100) * 100) = grid_point 39"
    "fl (fl (grid_point 40 / 100) * 100) = grid_point 40"
  by code_simp+

lemma percentage_table:
  assumes "0 \<le> k" "k \<le> 40"
  shows "fl (fl (grid_point k / 100) * 100) =
     (if k = 11 then grid_point k + 1 / 2 ^ 48
      else if k = 22 then grid_point k + 1 / 2 ^ 47
      else if k = 23 then grid_point k - 1 / 2 ^ 47
      else grid_point k)"
proof -
  have "k \<in> set [0..40]" using assms by simp
  then have "k \<in> {0, 1, 2, 3, 4, 5, 6, 7, 8, 9, 10, 11, 12, 13, 14, 15, 16, 17, 18, 19, 20,
      21, 22, 23, 24, 25, 26, 27, 28, 29, 30, 31, 32, 33, 34, 35, 36, 37, 38, 39, 40}"
    by (simp add: upto.simps)
  then show ?thesis
    using percentage_rows by (elim insertE emptyE) simp_all
qed

text \<open>
  Claim C1, amended. For every response mapping that gives each of the fixed questions an
  answer among Yes, Partially and No: each question scores its full weight for Yes, half
  its weight for Partially and 0 for No, exactly; the handler returns, and the total
  score is the double \<open>fl (fl (sum of scores / sum of weights) * 100)\<close>. That double is
  \<open>100 * sum of scores / sum of weights\<close> itself unless the sum of the scores is 27.5, 55
  or 57.5, where it is the neighbouring double: above by \<open>2 ^ -48\<close>, above by \<open>2 ^ -47\<close>
  and below by \<open>2 ^ -47\<close>. The category scores hold exactly the categories of the
  questions, each with the exact sum of the scores and the sum of the weights of its
  questions.
\<close>

theorem assessment_scores_in_doubles:
  assumes "\<forall>q\<in>set questions. map_of rs (q_id q) = Some (answer_text (a (q_id q)))"
  shows "(\<forall>q\<in>set questions.
            num_value (question_score q (answer_text (a (q_id q)))) = spec_score (weight q) (a (q_id q))) \<and>
         (\<exists>p cats. calculate_security_score questions rs = Inr (PyFloat p, cats) \<and>
            p = fl (fl (spec_total a / of_int spec_max) * 100) \<and>
            (spec_total a \<noteq> 55 / 2 \<and> spec_total a \<noteq> 55 \<and> spec_total a \<noteq> 115 / 2
               \<longrightarrow> p = spec_percentage a) \<and>
            (spec_total a = 55 / 2 \<longrightarrow> p = spec_percentage a + 1 / 2 ^ 48) \<and>
            (spec_total a = 55 \<longrightarrow> p = spec_percentage a + 1 / 2 ^ 47) \<and>
            (spec_total a = 115 / 2 \<longrightarrow> p = spec_percentage a - 1 / 2 ^ 47) \<and>
            (\<forall>c. case map_of cats c of
                    None \<Rightarrow> c \<notin> q_category ` set questions
                  | Some e \<Rightarrow>
                      c \<in> q_category ` set questions \<and>
                      num_value (cs_score e) = spec_category_score a c \<and>
                      cs_max e = spec_category_max c))"
proof (intro conjI ballI)
  fix q assume "q \<in> set questions"
  then have "5 dvd weight q \<and> 0 \<le> weight q \<and> weight q \<le> 100"
    by (auto simp: questions_def)
  then show "num_value (question_score q (answer_text (a (q_id q)))) = spec_score (weight q) (a (q_id q))"
    using question_score_grid(1) by blast
next
  from calculate_security_score_value[OF assms]
  obtain k cats where k: "0 \<le> k" "k \<le> 40"
    and t: "(\<Sum>q\<leftarrow>questions. spec_score (weight q) (a (q_id q))) = grid_point k"
    and r: "calculate_security_score questions rs
        = Inr (PyFloat (fl (fl (grid_point k / 100) * 100)), cats)"
    and c: "\<forall>c. case map_of cats c of
               None \<Rightarrow> c \<notin> q_category ` set questions
             | Some e \<Rightarrow>
                 c \<in> q_category ` set questions \<and>
                 num_value (cs_score e) =
                   (\<Sum>q\<leftarrow>filter (\<lambda>q. q_category q = c) questions.
                       spec_score (weight q) (a (q_id q))) \<and>
                 cs_max e = (\<Sum>q\<leftarrow>filter (\<lambda>q. q_category q = c) questions. weight q)"
    by blast
  let ?p = "fl (fl (grid_point k / 100) * 100)"
  have st: "spec_total a = grid_point k" using t by (simp add: spec_total_def)
  have sp: "spec_percentage a = grid_point k"
    by (simp add: spec_percentage_def st spec_max_100)
  have p0: "?p = fl (fl (spec_total a / of_int spec_max) * 100)"
    by (simp add: st spec_max_100)
  note tab = percentage_table[OF k]
  have p1: "spec_total a \<noteq> 55 / 2 \<and> spec_total a \<noteq> 55 \<and> spec_total a \<noteq> 115 / 2
               \<longrightarrow> ?p = spec_percentage a"
    unfolding st sp grid_point_cases using tab by simp
  have p2: "spec_total a = 55 / 2 \<longrightarrow> ?p = spec_percentage a + 1 / 2 ^ 48"
    unfolding st sp grid_point_cases using tab by (cases "k = 11"; cases "k = 22"; cases "k = 23") simp_all
  have p3: "spec_total a = 55 \<longrightarrow> ?p = spec_percentage a + 1 / 2 ^ 47"
    unfolding st sp grid_point_cases using tab by (cases "k = 11"; cases "k = 22"; cases "k = 23") simp_all
  have p4: "spec_total a = 115 / 2 \<longrightarrow> ?p = spec_percentage a - 1 / 2 ^ 47"
    unfolding st sp grid_point_cases using tab by (cases "k = 11"; cases "k = 22"; cases "k = 23") simp_all
  have c': "\<forall>c. case map_of cats c of
                    None \<Rightarrow> c \<notin> q_category ` set questions
                  | Some e \<Rightarrow>
                      c \<in> q_category ` set questions \<and>
                      num_value (cs_score e) = spec_category_score a c \<and>
                      cs_max e = spec_category_max c"
    using c unfolding spec_category_score_def spec_category_max_def .
  show "\<exists>p cats. calculate_security_score questions rs = Inr (PyFloat p, cats) \<and>
            p = fl (fl (spec_total a / of_int spec_max) * 100) \<and>
            (spec_total a \<noteq> 55 / 2 \<and> spec_total a \<noteq> 55 \<and> spec_total a \<noteq> 115 / 2
               \<longrightarrow> p = spec_percentage a) \<and>
            (spec_total a = 55 / 2 \<longrightarrow> p = spec_percentage a + 1 / 2 ^ 48) \<and>
            (spec_total a = 55 \<longrightarrow> p = spec_percentage a + 1 / 2 ^ 47) \<and>
            (spec_total a = 115 / 2 \<longrightarrow> p = spec_percentage a - 1 / 2 ^ 47) \<and>
            (\<forall>c. case map_of cats c of
                    None \<Rightarrow> c \<notin> q_category ` set questions
                  | Some e \<Rightarrow>
                      c \<in> q_category ` set questions \<and>
                      num_value (cs_score e) = spec_category_score a c \<and>
                      cs_max e = spec_category_max c)"
    by (intro exI[of _ ?p] exI[of _ cats] conjI) (rule r p0 p1 p2 p3 p4 c')+
qed


text \<open>
  Claim C1, as stated, fails for the total score: \<^verbatim>\<open>(total_score / max_score) * 100\<close> is
  computed in doubles, and each of the two operations rounds. With Yes on the three
  questions of weight 20, 20 and 15 and No elsewhere the form collects the responses
  below, the sum of the scores is 55 and \<open>100 * 55 / 100 = 55\<close>, but the quotient
  \<^verbatim>\<open>55 / 100\<close> rounds to a double slightly above 0.55 and its product with 100 rounds to
  the double next above 55 (\<^verbatim>\<open>55.00000000000001\<close>), which is what the page stores.
\<close>

theorem assessment_total_55_counterexample:
  "collect_responses questions (submitted_of example_answers_55) []
     = Inr (responses_of example_answers_55) \<and>
   list_all (\<lambda>q. map_of (responses_of example_answers_55) (q_id q)
              = Some (answer_text (example_answers_55 (q_id q)))) questions \<and>
   \<not> isl (calculate_security_score questions (responses_of example_answers_55)) \<and>
   spec_percentage example_answers_55 = 55 \<and>
   num_value (fst (projr (calculate_security_score questions (responses_of example_answers_55))))
     \<noteq> spec_percentage example_answers_55"
proof -
  have a: "list_all (\<lambda>q. map_of (responses_of example_answers_55) (q_id q)
              = Some (answer_text (example_answers_55 (q_id q)))) questions"
    by (simp add: list_all_iff responses_of_lookup)
  have b: "\<not> isl (calculate_security_score questions (responses_of example_answers_55))"
    by code_simp
  have c: "spec_percentage example_answers_55 = 55" by code_simp
  have d: "num_value (fst (projr (calculate_security_score questions (responses_of example_answers_55))))
     \<noteq> spec_percentage example_answers_55"
    by code_simp
  have r: "collect_responses questions (submitted_of example_answers_55) []
     = Inr (responses_of example_answers_55)"
    by code_simp
  show ?thesis by (intro conjI) (rule r a b c d)+
qed

lemma responses_of_all:
  "\<forall>q\<in>set questions. map_of (responses_of a) (q_id q) = Some (answer_text (a (q_id q)))"
  by (simp add: responses_of_lookup)

theorem assessment_scores_in_doubles_witness:
  "(list_all (\<lambda>q. map_of (responses_of example_answers) (q_id q)
               = Some (answer_text (example_answers (q_id q)))) questions \<and>
    spec_total example_answers \<noteq> 55 / 2 \<and> spec_total example_answers \<noteq> 55 \<and>
    spec_total example_answers \<noteq> 115 / 2) \<and>
   (\<exists>cats e. calculate_security_score questions (responses_of example_answers)
        = Inr (PyFloat (165 / 2), cats) \<and>
      map_of cats ''Password Security'' = Some e \<and> num_value (cs_score e) = 55 / 2 \<and> cs_max e = 35) \<and>
   spec_total example_answers_27 = 55 / 2 \<and>
   (\<exists>cats. calculate_security_score questions (responses_of example_answers_27)
        = Inr (PyFloat (55 / 2 + 1 / 2 ^ 48), cats)) \<and>
   spec_total example_answers_55 = 55 \<and>
   (\<exists>cats. calculate_security_score questions (responses_of example_answers_55)
        = Inr (PyFloat (55 + 1 / 2 ^ 47), cats)) \<and>
   spec_total example_answers_57 = 115 / 2 \<and>
   (\<exists>cats. calculate_security_score questions (responses_of example_answers_57)
        = Inr (PyFloat (115 / 2 - 1 / 2 ^ 47), cats))"
proof -
  have h: "list_all (\<lambda>q. map_of (responses_of example_answers) (q_id q)
               = Some (answer_text (example_answers (q_id q)))) questions"
    by (simp add: list_all_iff responses_of_lookup)
  have t0: "spec_total example_answers = 165 / 2" by code_simp
  have t0': "spec_total example_answers \<noteq> 55 / 2 \<and> spec_total example_answers \<noteq> 55 \<and>
    spec_total example_answers \<noteq> 115 / 2"
    unfolding t0 by simp
  have s0: "spec_percentage example_answers = 165 / 2" by code_simp
  have cs: "spec_category_score example_answers ''Password Security'' = 55 / 2" by code_simp
  have cm: "spec_category_max ''Password Security'' = 35" by code_simp
  have cin: "''Password Security'' \<in> q_category ` set questions" by (simp add: questions_def)
  from assessment_scores_in_doubles[OF responses_of_all[of example_answers], THEN conjunct2]
  obtain p cats where r: "calculate_security_score questions (responses_of example_answers)
        = Inr (PyFloat p, cats)"
    and pe: "spec_total example_answers \<noteq> 55 / 2 \<and> spec_total example_answers \<noteq> 55 \<and>
       spec_total example_answers \<noteq> 115 / 2 \<longrightarrow> p = spec_percentage example_answers"
    and c: "\<forall>c. case map_of cats c of
                    None \<Rightarrow> c \<notin> q_category ` set questions
                  | Some e \<Rightarrow>
                      c \<in> q_category ` set questions \<and>
                      num_value (cs_score e) = spec_category_score example_answers c \<and>
                      cs_max e = spec_category_max c"
    by blast
  have p: "p = 165 / 2" using pe t0' s0 by simp
  obtain e where e: "map_of cats ''Password Security'' = Some e"
    and ev: "num_value (cs_score e) = 55 / 2" "cs_max e = 35"
    using c[THEN spec, of "''Password Security''"] cin cs cm
    by (cases "map_of cats ''Password Security''") auto
  have w0: "\<exists>cats e. calculate_security_score questions (responses_of example_answers)
        = Inr (PyFloat (165 / 2), cats) \<and>
      map_of cats ''Password Security'' = Some e \<and> num_value (cs_score e) = 55 / 2 \<and> cs_max e = 35"
    using r p e ev by blast

  have t1: "spec_total example_answers_27 = 55 / 2" by code_simp
  have s1: "spec_percentage example_answers_27 = 55 / 2" by code_simp
  from assessment_scores_in_doubles[OF responses_of_all[of example_answers_27], THEN conjunct2]
  obtain p1 cats1 where r1: "calculate_security_score questions (responses_of example_answers_27)
        = Inr (PyFloat p1, cats1)"
    and pe1: "spec_total example_answers_27 = 55 / 2
        \<longrightarrow> p1 = spec_percentage example_answers_27 + 1 / 2 ^ 48"
    by blast
  have "p1 = 55 / 2 + 1 / 2 ^ 48" using pe1 t1 s1 by simp
  then have w1: "\<exists>cats. calculate_security_score questions (responses_of example_answers_27)
        = Inr (PyFloat (55 / 2 + 1 / 2 ^ 48), cats)"
    using r1 by blast

  have t2: "spec_total example_answers_55 = 55" by code_simp
  have s2: "spec_percentage example_answers_55 = 55" by code_simp
  from assessment_scores_in_doubles[OF responses_of_all[of example_answers_55], THEN conjunct2]
  obtain p2 cats2 where r2: "calculate_security_score questions (responses_of example_answers_55)
        = Inr (PyFloat p2, cats2)"
    and pe2: "spec_total example_answers_55 = 55
        \<longrightarrow> p2 = spec_percentage example_answers_55 + 1 / 2 ^ 47"
    by blast
  have "p2 = 55 + 1 / 2 ^ 47" using pe2 t2 s2 by simp
  then have w2: "\<exists>cats. calculate_security_score questions (responses_of example_answers_55)
        = Inr (PyFloat (55 + 1 / 2 ^ 47), cats)"
    using r2 by blast

  have t3: "spec_total example_answers_57 = 115 / 2" by code_simp
  have s3: "spec_percentage example_answers_57 = 115 / 2" by code_simp
  from assessment_scores_in_doubles[OF responses_of_all[of example_answers_57], THEN conjunct2]
  obtain p3 cats3 where r3: "calculate_security_score questions (responses_of example_answers_57)
        = Inr (PyFloat p3, cats3)"
    and pe3: "spec_total example_answers_57 = 115 / 2
        \<longrightarrow> p3 = spec_percentage example_answers_57 - 1 / 2 ^ 47"
    by blast
  have "p3 = 115 / 2 - 1 / 2 ^ 47" using pe3 t3 s3 by simp
  then have w3: "\<exists>cats. calculate_security_score questions (responses_of example_answers_57)
        = Inr (PyFloat (115 / 2 - 1 / 2 ^ 47), cats)"
    using r3 by blast
  show ?thesis
    by (intro conjI) (rule h t0'[THEN conjunct1] t0'[THEN conjunct2, THEN conjunct1]
        t0'[THEN conjunct2, THEN conjunct2] w0 t1 w1 t2 w2 t3 w3)+
qed

subsection \<open>Answers outside the enumeration\<close>









section \<open>Verification of the breach checker\<close>

lemma split_on_no_sep: "sep \<notin> set s \<Longrightarrow> split_on sep s = [s]"
  by (induction s) auto

lemma split_on_field: "sep \<notin> set s \<Longrightarrow> split_on sep (s @ sep # t) = s # split_on sep t"
  by (induction s) auto

lemma split_hash_line:
  "CHR '':'' \<notin> set (fst e) \<Longrightarrow> CHR '':'' \<notin> set (snd e) \<Longrightarrow>
   split_on CHR '':'' (hash_line e) = [fst e, snd e]"
  by (simp add: hash_line_def split_on_field split_on_no_sep)

lemma scan_hashes_entries:
  assumes "\<forall>e\<in>set entries. CHR '':'' \<notin> set (fst e) \<and> CHR '':'' \<notin> set (snd e)"
  shows "scan_hashes py_int suffix (map hash_line entries) =
     (case map_of entries suffix of
        None \<Rightarrow> Inr (False, 0)
      | Some cnt \<Rightarrow> (case py_int cnt of Inl e \<Rightarrow> Inl e | Inr n \<Rightarrow> Inr (True, n)))"
  using assms
proof (induction entries)
  case Nil
  show ?case by simp
next
  case (Cons e entries)
  obtain s c where e: "e = (s, c)" by (cases e)
  have sp: "split_on CHR '':'' (hash_line e) = [s, c]"
    using Cons.prems e split_hash_line[of e] by simp
  show ?case using Cons e sp by (simp split: sum.splits)
qed

lemma splitlines_from_plain:
  "\<forall>c\<in>set l. \<not> linebreak c \<Longrightarrow> splitlines_from cur l = (if cur @ l = [] then [] else [cur @ l])"
proof (induction cur l rule: splitlines_from.induct)
  case (1 cur) show ?case by simp
next
  case (2 cur c) then show ?case by simp
next
  case (3 cur c d cs)
  have nb: "\<not> linebreak c" "c \<noteq> CHR 0x0D" using "3.prems" by (auto simp: linebreak_def)
  have "splitlines_from cur (c # d # cs) = splitlines_from (cur @ [c]) (d # cs)"
    using nb by simp
  then show ?case using "3.IH"(3) nb "3.prems" by simp
qed

lemma linebreak_LF: "linebreak (CHR 0x0A)"
  by (simp add: linebreak_def)

lemma splitlines_from_line:
  "\<forall>c\<in>set l. \<not> linebreak c \<Longrightarrow>
   splitlines_from cur (l @ CHR 0x0A # rest) = (cur @ l) # splitlines_from [] rest"
proof (induction l arbitrary: cur)
  case Nil
  show ?case by (cases rest) (simp_all add: linebreak_LF)
next
  case (Cons c l)
  have nb: "\<not> linebreak c" "c \<noteq> CHR 0x0D" using Cons.prems by (auto simp: linebreak_def)
  obtain d ds where t: "l @ CHR 0x0A # rest = d # ds" by (cases "l @ CHR 0x0A # rest") auto
  have "splitlines_from cur ((c # l) @ CHR 0x0A # rest) = splitlines_from (cur @ [c]) (l @ CHR 0x0A # rest)"
    using nb t by simp
  then show ?case using Cons.IH[of "cur @ [c]"] Cons.prems by simp
qed

lemma splitlines_from_line_crlf:
  "\<forall>c\<in>set l. \<not> linebreak c \<Longrightarrow>
   splitlines_from cur (l @ CHR 0x0D # CHR 0x0A # rest) = (cur @ l) # splitlines_from [] rest"
proof (induction l arbitrary: cur)
  case Nil
  show ?case by simp
next
  case (Cons c l)
  have nb: "\<not> linebreak c" "c \<noteq> CHR 0x0D" using Cons.prems by (auto simp: linebreak_def)
  obtain d ds where t: "l @ CHR 0x0D # CHR 0x0A # rest = d # ds"
    by (cases "l @ CHR 0x0D # CHR 0x0A # rest") auto
  have "splitlines_from cur ((c # l) @ CHR 0x0D # CHR 0x0A # rest)
      = splitlines_from (cur @ [c]) (l @ CHR 0x0D # CHR 0x0A # rest)"
    using nb t by simp
  then show ?case using Cons.IH[of "cur @ [c]"] Cons.prems by simp
qed

lemma splitlines_join_lf:
  assumes "\<forall>l\<in>set ls. l \<noteq> [] \<and> (\<forall>c\<in>set l. \<not> linebreak c)"
  shows "splitlines_from [] (join_with [CHR 0x0A] ls) = ls"
  using assms
proof (induction ls rule: induct_list012)
  case 1 show ?case by simp
next
  case (2 l) then show ?case by (simp add: splitlines_from_plain)
next
  case (3 l m ls)
  then show ?case by (simp add: splitlines_from_line)
qed

lemma splitlines_join_crlf:
  assumes "\<forall>l\<in>set ls. l \<noteq> [] \<and> (\<forall>c\<in>set l. \<not> linebreak c)"
  shows "splitlines_from [] (join_with [CHR 0x0D, CHR 0x0A] ls) = ls"
  using assms
proof (induction ls rule: induct_list012)
  case 1 show ?case by simp
next
  case (2 l) then show ?case by (simp add: splitlines_from_plain)
next
  case (3 l m ls)
  then show ?case by (simp add: splitlines_from_line_crlf)
qed

lemma splitlines_join_with:
  assumes "sep = [CHR 0x0A] \<or> sep = [CHR 0x0D, CHR 0x0A]"
    and "\<forall>l\<in>set ls. l \<noteq> [] \<and> (\<forall>c\<in>set l. \<not> linebreak c)"
  shows "splitlines (join_with sep ls) = ls"
  using assms(1) splitlines_join_lf[OF assms(2)] splitlines_join_crlf[OF assms(2)]
  unfolding splitlines_def by blast

text \<open>
  Claim C6. For every candidate password and every response (status 200) that consists of
  newline-delimited lines \<^verbatim>\<open>suffix:count\<close> for the first 5 characters of the password's
  upper-case SHA-1 digest: if some line's suffix equals the rest of the digest, the check reports found
  with the breach count of that line (the first such line, should there be several); if no
  line matches, it reports not found.
\<close>

theorem breach_lookup_reports:
  assumes "requests_get (range_url (take 5 (sha1_upper password))) = Inr resp"
    and "status_code resp = 200"
    and "sep = [CHR 0x0A] \<or> sep = [CHR 0x0D, CHR 0x0A]"
    and "response_text resp = join_with sep (map hash_line entries)"
    and "\<forall>e\<in>set entries. \<forall>c\<in>set (fst e @ snd e). field_char c"
    and "\<forall>e\<in>set entries. \<not> isl (py_int (snd e))"
  shows "((\<exists>e\<in>set entries. fst e = drop 5 (sha1_upper password)) \<longrightarrow>
            (\<exists>cnt n. map_of entries (drop 5 (sha1_upper password)) = Some cnt \<and> py_int cnt = Inr n \<and>
               breach_lookup sha1_upper requests_get py_int password = Inr (Some (True, n)) \<and>
               check_password sha1_upper requests_get py_int password = BreachDetected n)) \<and>
         ((\<forall>e\<in>set entries. fst e \<noteq> drop 5 (sha1_upper password)) \<longrightarrow>
            breach_lookup sha1_upper requests_get py_int password = Inr (Some (False, 0)) \<and>
            check_password sha1_upper requests_get py_int password = NoBreach)"
proof -
  let ?suffix = "drop 5 (sha1_upper password)"
  have nc: "\<forall>e\<in>set entries. CHR '':'' \<notin> set (fst e) \<and> CHR '':'' \<notin> set (snd e)"
    using assms(5) by (auto simp: field_char_def)
  have nl: "\<forall>l\<in>set (map hash_line entries). l \<noteq> [] \<and> (\<forall>c\<in>set l. \<not> linebreak c)"
    using assms(5) by (auto simp: hash_line_def field_char_def linebreak_def)
  have lines: "splitlines (response_text resp) = map hash_line entries"
    unfolding assms(4) by (rule splitlines_join_with[OF assms(3) nl])
  have lookup: "breach_lookup sha1_upper requests_get py_int password =
      (case (case map_of entries ?suffix of
        None \<Rightarrow> Inr (False, 0)
      | Some cnt \<Rightarrow> (case py_int cnt of Inl e \<Rightarrow> Inl e | Inr n \<Rightarrow> Inr (True, n))) of
         Inl e \<Rightarrow> Inl e | Inr r \<Rightarrow> Inr (Some r))"
    using assms(1,2) lines scan_hashes_entries[OF nc, of py_int ?suffix]
    by (simp add: breach_lookup_def Let_def)
  show ?thesis
  proof (rule conjI; rule impI)
    assume "\<exists>e\<in>set entries. fst e = ?suffix"
    then obtain cnt where m: "map_of entries ?suffix = Some cnt"
      by (metis map_of_eq_None_iff image_eqI not_Some_eq)
    then have "(?suffix, cnt) \<in> set entries" by (rule map_of_SomeD)
    then have "\<not> isl (py_int cnt)" using assms(6) by force
    then obtain n where n: "py_int cnt = Inr n" by (cases "py_int cnt") auto
    have "breach_lookup sha1_upper requests_get py_int password = Inr (Some (True, n))"
      using lookup m n by simp
    then show "\<exists>cnt n. map_of entries ?suffix = Some cnt \<and> py_int cnt = Inr n \<and>
               breach_lookup sha1_upper requests_get py_int password = Inr (Some (True, n)) \<and>
               check_password sha1_upper requests_get py_int password = BreachDetected n"
      using m n by (simp add: check_password_def)
  next
    assume "\<forall>e\<in>set entries. fst e \<noteq> ?suffix"
    then have m: "map_of entries ?suffix = None"
      by (force simp: map_of_eq_None_iff image_iff)
    have l: "breach_lookup sha1_upper requests_get py_int password = Inr (Some (False, 0))"
      using lookup m by simp
    then show "breach_lookup sha1_upper requests_get py_int password = Inr (Some (False, 0)) \<and>
            check_password sha1_upper requests_get py_int password = NoBreach"
      by (simp add: check_password_def)
  qed
qed


theorem breach_lookup_reports_witness:
  "(example_get (range_url (take 5 (example_sha1 ''password'')))
      = Inr \<lparr>status_code = 200,
             response_text = join_with [CHR 0x0D, CHR 0x0A] (map hash_line example_entries)\<rparr> \<and>
    list_all (\<lambda>e. list_all field_char (fst e @ snd e)) example_entries \<and>
    list_all (\<lambda>e. \<not> isl (digits_int (snd e))) example_entries \<and>
    (\<exists>e\<in>set example_entries. fst e = drop 5 (example_sha1 ''password''))) \<and>
   check_password example_sha1 example_get digits_int ''password'' = BreachDetected 3861493 \<and>
   list_all (\<lambda>e. fst e \<noteq> drop 5 (example_sha1 ''correct horse'')) example_entries \<and>
   check_password example_sha1 example_get digits_int ''correct horse'' = NoBreach"
proof -
  let ?resp = "\<lparr>status_code = 200,
      response_text = join_with [CHR 0x0D, CHR 0x0A] (map hash_line example_entries)\<rparr>"
  have g1: "example_get (range_url (take 5 (example_sha1 ''password''))) = Inr ?resp"
    by (simp add: example_get_def example_sha1_def range_url_def)
  have g2: "example_get (range_url (take 5 (example_sha1 ''correct horse''))) = Inr ?resp"
    by (simp add: example_get_def example_sha1_def range_url_def)
  have st: "status_code ?resp = 200" by simp
  have sp: "[CHR 0x0D, CHR 0x0A] = [CHR 0x0A] \<or> [CHR 0x0D, CHR 0x0A] = [CHR 0x0D, CHR 0x0A]" by simp
  have tx: "response_text ?resp = join_with [CHR 0x0D, CHR 0x0A] (map hash_line example_entries)"
    by simp
  have fc: "\<forall>e\<in>set example_entries. \<forall>c\<in>set (fst e @ snd e). field_char c" by code_simp
  have dg: "\<forall>e\<in>set example_entries. \<not> isl (digits_int (snd e))" by code_simp
  have hit: "\<exists>e\<in>set example_entries. fst e = drop 5 (example_sha1 ''password'')" by code_simp
  have miss: "\<forall>e\<in>set example_entries. fst e \<noteq> drop 5 (example_sha1 ''correct horse'')"
    by code_simp
  have m: "map_of example_entries (drop 5 (example_sha1 ''password'')) = Some ''3861493''"
    by code_simp
  have v: "digits_int ''3861493'' = Inr 3861493" by code_simp
  from breach_lookup_reports[where requests_get = example_get and sha1_upper = example_sha1
      and password = "''password''" and py_int = digits_int and entries = example_entries
      and resp = ?resp and sep = "[CHR 0x0D, CHR 0x0A]",
      OF g1 st sp tx fc dg, THEN conjunct1, THEN mp, OF hit]
  obtain cnt n where c: "map_of example_entries (drop 5 (example_sha1 ''password'')) = Some cnt"
    and n: "digits_int cnt = Inr n"
    and r: "check_password example_sha1 example_get digits_int ''password'' = BreachDetected n"
    by blast
  have "cnt = ''3861493''" using c m by simp
  then have "n = 3861493" using n v by simp
  then have a: "check_password example_sha1 example_get digits_int ''password'' = BreachDetected 3861493"
    using r by simp
  have b: "check_password example_sha1 example_get digits_int ''correct horse'' = NoBreach"
    using breach_lookup_reports[where requests_get = example_get and sha1_upper = example_sha1
      and password = "''correct horse''" and py_int = digits_int and entries = example_entries
      and resp = ?resp and sep = "[CHR 0x0D, CHR 0x0A]",
      OF g2 st sp tx fc dg, THEN conjunct2, THEN mp, OF miss]
    by (rule conjunct2)
  have fc': "list_all (\<lambda>e. list_all field_char (fst e @ snd e)) example_entries"
    using fc by (simp only: list_all_iff)
  have dg': "list_all (\<lambda>e. \<not> isl (digits_int (snd e))) example_entries"
    using dg by (simp only: list_all_iff)
  have miss': "list_all (\<lambda>e. fst e \<noteq> drop 5 (example_sha1 ''correct horse'')) example_entries"
    using miss by (simp only: list_all_iff)
  show ?thesis
    by (intro conjI) (rule g1 fc' dg' hit a miss' b)+
qed

lemma summary_counts_sum:
  "safe_count results + breached_count results + error_count results = length results"
proof (induction results)
  case Nil
  show ?case by (simp add: safe_count_def breached_count_def error_count_def)
next
  case (Cons r results)
  then show ?case
    by (cases "res_breached r") (auto simp: safe_count_def breached_count_def error_count_def)
qed

lemma batch_loop_length:
  "length (batch_loop sha1_upper requests_get py_int passwords results) =
     length results +
     length (filter (\<lambda>p. breach_lookup sha1_upper requests_get py_int p \<noteq> Inr None) passwords)"
  by (induction passwords arbitrary: results)
     (auto simp: Let_def split: sum.splits option.splits)

lemma batch_check_length_le:
  "length (batch_check sha1_upper requests_get py_int passwords) \<le> length passwords"
  by (simp add: batch_check_def batch_loop_length)

text \<open>
  Claim C7 at a failing input. The claim: in batch mode every input password produces
  exactly one entry of the results, so that the safe, breached and error counts sum to the
  number of passwords. With a service that answers 503 the one password of the batch
  leaves no entry, and the three counts sum to 0.
\<close>

theorem batch_check_non_200_dropped:
  "batch_check example_sha1 example_unavailable digits_int [''password''] = [] \<and>
   safe_count (batch_check example_sha1 example_unavailable digits_int [''password''])
     + breached_count (batch_check example_sha1 example_unavailable digits_int [''password''])
     + error_count (batch_check example_sha1 example_unavailable digits_int [''password''])
     \<noteq> length [''password'']"
proof -
  have "breach_lookup example_sha1 example_unavailable digits_int ''password'' = Inr None"
    by (simp add: breach_lookup_def example_unavailable_def Let_def)
  then have e: "batch_check example_sha1 example_unavailable digits_int [''password''] = []"
    by (simp add: batch_check_def)
  show ?thesis unfolding e by (simp add: safe_count_def breached_count_def error_count_def)
qed


section \<open>Verification of the email analysis\<close>

lemma starts_with_iff: "starts_with s w \<longleftrightarrow> (\<exists>ss. s = w @ ss)"
  by (induction s w rule: starts_with.induct) auto

lemma py_in_iff: "py_in w s \<longleftrightarrow> (\<exists>ps ss. s = ps @ w @ ss)"
proof (induction s)
  case Nil
  show ?case by auto
next
  case (Cons c s)
  show ?case
  proof
    assume "py_in w (c # s)"
    then consider "starts_with (c # s) w" | "py_in w s" by auto
    then show "\<exists>ps ss. c # s = ps @ w @ ss"
    proof cases
      case 1
      then obtain ss where "c # s = w @ ss" by (auto simp: starts_with_iff)
      then have "c # s = [] @ w @ ss" by simp
      then show ?thesis by blast
    next
      case 2
      then obtain ps ss where "s = ps @ w @ ss" using Cons.IH by auto
      then have "c # s = (c # ps) @ w @ ss" by simp
      then show ?thesis by blast
    qed
  next
    assume "\<exists>ps ss. c # s = ps @ w @ ss"
    then obtain ps ss where e: "c # s = ps @ w @ ss" by blast
    show "py_in w (c # s)"
    proof (cases ps)
      case Nil
      then have "starts_with (c # s) w" using e by (auto simp: starts_with_iff)
      then show ?thesis by simp
    next
      case (Cons p ps')
      then have "s = ps' @ w @ ss" using e by simp
      then have "py_in w s" using Cons.IH by blast
      then show ?thesis by simp
    qed
  qed
qed

lemma py_in_lower_iff: "py_in (lower w) (lower text) \<longleftrightarrow> occurs_ignoring_case w text"
proof
  assume "py_in (lower w) (lower text)"
  then obtain ps ss where "map lower_char text = ps @ lower w @ ss"
    by (auto simp: py_in_iff lower_def)
  then obtain ps' r where t: "text = ps' @ r" and "lower w @ ss = map lower_char r"
    unfolding map_eq_append_conv by blast
  then obtain s ss' where "r = s @ ss'" and "lower w = map lower_char s"
    unfolding append_eq_map_conv by blast
  then show "occurs_ignoring_case w text"
    using t unfolding occurs_ignoring_case_def lower_def by metis
next
  assume "occurs_ignoring_case w text"
  then obtain ps s ss where "text = ps @ s @ ss" and "lower s = lower w"
    unfolding occurs_ignoring_case_def by blast
  then have "lower text = lower ps @ lower w @ lower ss" by (simp add: lower_def)
  then show "py_in (lower w) (lower text)" unfolding py_in_iff by blast
qed

lemma distinct_phishing_words: "distinct phishing_words"
  by (simp add: phishing_words_def)

lemma phishing_count_card:
  "length (filter (\<lambda>word. py_in (lower word) (lower text)) phishing_words)
     = card {w \<in> set phishing_words. occurs_ignoring_case w text}"
proof -
  have "length (filter (\<lambda>word. py_in (lower word) (lower text)) phishing_words)
      = card ({word. py_in (lower word) (lower text)} \<inter> set phishing_words)"
    using distinct_phishing_words by (rule distinct_length_filter)
  also have "{word. py_in (lower word) (lower text)} \<inter> set phishing_words
      = {w \<in> set phishing_words. occurs_ignoring_case w text}"
    by (auto simp: py_in_lower_iff)
  finally show ?thesis .
qed

text \<open>
  Claim C9. \<open>ai_check\<close> maps the polarity of the text to exactly one of three sentiments by
  the thresholds 0.05 and -0.05 (Positive from 0.05 up, Negative from -0.05 down, Neutral
  between them), and gives the phishing verdict by the number of the fixed keywords that
  occur in the text as substrings, letter case ignored: none is the safe verdict, exactly
  one the caution verdict, two or more the possible-phishing verdict.
\<close>

theorem ai_check_verdicts:
  "snd (snd (ai_check polarity text)) = polarity text \<and>
   (5 / 100 \<le> polarity text \<longrightarrow> fst (ai_check polarity text) = Positive) \<and>
   (polarity text \<le> - (5 / 100) \<longrightarrow> fst (ai_check polarity text) = Negative) \<and>
   (- (5 / 100) < polarity text \<and> polarity text < 5 / 100
      \<longrightarrow> fst (ai_check polarity text) = Neutral) \<and>
   (card {w \<in> set phishing_words. occurs_ignoring_case w text} = 0
      \<longrightarrow> fst (snd (ai_check polarity text)) = LooksSafe) \<and>
   (card {w \<in> set phishing_words. occurs_ignoring_case w text} = 1
      \<longrightarrow> fst (snd (ai_check polarity text)) = BeCareful) \<and>
   (2 \<le> card {w \<in> set phishing_words. occurs_ignoring_case w text}
      \<longrightarrow> fst (snd (ai_check polarity text)) = PossiblePhishing)"
  unfolding phishing_count_card[symmetric]
  by (simp add: ai_check_def Let_def)

lemma triple_eq:
  "fst t = a \<Longrightarrow> fst (snd t) = b \<Longrightarrow> snd (snd t) = c \<Longrightarrow> t = (a, b, c)"
  by (cases t) auto

theorem ai_check_verdicts_witness:
  "(5 / 100 \<le> example_polarity ''Thank you, free lunch'' \<and>
    card {w \<in> set phishing_words. occurs_ignoring_case w ''Thank you, free lunch''} = 1) \<and>
   ai_check example_polarity ''Thank you, free lunch'' = (Positive, BeCareful, 1 / 2) \<and>
   (- (5 / 100) < example_polarity ''URGENT: Verify Account today'' \<and>
    example_polarity ''URGENT: Verify Account today'' < 5 / 100 \<and>
    2 \<le> card {w \<in> set phishing_words. occurs_ignoring_case w ''URGENT: Verify Account today''}) \<and>
   ai_check example_polarity ''URGENT: Verify Account today'' = (Neutral, PossiblePhishing, 0) \<and>
   (example_polarity ''Bad day'' \<le> - (5 / 100) \<and>
    card {w \<in> set phishing_words. occurs_ignoring_case w ''Bad day''} = 0) \<and>
   ai_check example_polarity ''Bad day'' = (Negative, LooksSafe, - (3 / 5))"
proof -
  let ?t1 = "''Thank you, free lunch''" and ?t2 = "''URGENT: Verify Account today''"
    and ?t3 = "''Bad day''"
  have p1: "example_polarity ?t1 = 1 / 2" by code_simp
  have p2: "example_polarity ?t2 = 0" by code_simp
  have p3: "example_polarity ?t3 = - (3 / 5)" by code_simp
  have "length (filter (\<lambda>word. py_in (lower word) (lower ?t1)) phishing_words) = 1" by code_simp
  then have k1: "card {w \<in> set phishing_words. occurs_ignoring_case w ?t1} = 1"
    by (simp only: phishing_count_card)
  have "length (filter (\<lambda>word. py_in (lower word) (lower ?t2)) phishing_words) = 2" by code_simp
  then have k2: "card {w \<in> set phishing_words. occurs_ignoring_case w ?t2} = 2"
    by (simp only: phishing_count_card)
  have "length (filter (\<lambda>word. py_in (lower word) (lower ?t3)) phishing_words) = 0" by code_simp
  then have k3: "card {w \<in> set phishing_words. occurs_ignoring_case w ?t3} = 0"
    by (simp only: phishing_count_card)
  have h1: "5 / 100 \<le> example_polarity ?t1" unfolding p1 by simp
  have h2: "- (5 / 100) < example_polarity ?t2 \<and> example_polarity ?t2 < 5 / 100"
    unfolding p2 by simp
  have h3: "example_polarity ?t3 \<le> - (5 / 100)" unfolding p3 by simp
  have k2': "2 \<le> card {w \<in> set phishing_words. occurs_ignoring_case w ?t2}" unfolding k2 by simp
  note a = ai_check_verdicts[of example_polarity ?t1]
  note b = ai_check_verdicts[of example_polarity ?t2]
  note c = ai_check_verdicts[of example_polarity ?t3]
  have r1: "ai_check example_polarity ?t1 = (Positive, BeCareful, 1 / 2)"
    using a h1 k1 p1 by (intro triple_eq) (simp_all only:)
  have r2: "ai_check example_polarity ?t2 = (Neutral, PossiblePhishing, 0)"
    using b h2 k2' p2 by (intro triple_eq) (simp_all only:)
  have r3: "ai_check example_polarity ?t3 = (Negative, LooksSafe, - (3 / 5))"
    using c h3 k3 p3 by (intro triple_eq) (simp_all only:)
  show ?thesis
    by (intro conjI) (rule h1 k1 r1 h2[THEN conjunct1] h2[THEN conjunct2] k2' r2 h3 k3 r3)+
qed

end
